theory Spec2Isabelle
  imports Complex_Main
begin

section \<open>Bounds utilities (src/Utils/mapBounds.ts)\<close>

text \<open>
  A JavaScript number is modelled as a real. Bounds are only compared, shifted by
  \<open>addBoundsBuffer\<close> and rendered as text; a comparison of two doubles is the comparison
  of the reals they denote. The rounding of double arithmetic in \<open>addBoundsBuffer\<close> is
  not represented: the model computes the buffered rectangle exactly.
\<close>

record MapBounds =
  north :: real
  south :: real
  east :: real
  west :: real

subsection \<open>Rendering numbers\<close>

text \<open>The decimal digits of a natural number, most significant first.\<close>

fun digitsOf :: "nat \<Rightarrow> string" where
  "digitsOf n =
     (if n < 10 then [''0123456789'' ! n]
      else digitsOf (n div 10) @ [''0123456789'' ! (n mod 10)])"

declare digitsOf.simps [simp del]

text \<open>
  \<open>x.toFixed(4)\<close> for a number below \<open>10^21\<close> in magnitude (the range of fixed
  notation): the sign is taken off a negative \<open>x\<close>, \<open>n\<close> is the integer with
  \<open>n / 10^4\<close> nearest to the magnitude, the larger one on a tie, and the digits of \<open>n\<close>
  are split four places from the right, padded with zeros.
\<close>

definition toFixed4 :: "real \<Rightarrow> string" where
  "toFixed4 x =
     (let n = nat \<lfloor>\<bar>x\<bar> * 10000 + 1 / 2\<rfloor>;
          b = digitsOf (n mod 10000)
      in (if x < 0 then ''-'' else '''') @ digitsOf (n div 10000) @ ''.'' @
         replicate (4 - length b) (CHR ''0'') @ b)"

definition boundsToKey :: "MapBounds \<Rightarrow> string" where
  "boundsToKey bounds =
     toFixed4 (north bounds) @ '','' @ toFixed4 (south bounds) @ '','' @
     toFixed4 (east bounds) @ '','' @ toFixed4 (west bounds)"

definition addBoundsBuffer :: "MapBounds \<Rightarrow> real \<Rightarrow> MapBounds" where
  "addBoundsBuffer bounds bufferPercent =
     (let latBuffer = (north bounds - south bounds) * bufferPercent;
          lngBuffer = (east bounds - west bounds) * bufferPercent
      in \<lparr>north = north bounds + latBuffer,
          south = south bounds - latBuffer,
          east = east bounds + lngBuffer,
          west = west bounds - lngBuffer\<rparr>)"

text \<open>
  A template string that joins numbers with commas renders each number in its shortest
  decimal form. That rendering depends on the binary representation and has no
  counterpart on the reals; it is one-to-one on the finite numbers and never contains a
  comma, so two such strings are equal exactly when the lists of numbers are. The model
  keeps the list of numbers in place of the string.
\<close>

type_synonym numstr = "real list"

definition boundsToOverpassBbox :: "MapBounds \<Rightarrow> numstr" where
  "boundsToOverpassBbox bounds = [south bounds, west bounds, north bounds, east bounds]"

definition boundsOverlap :: "MapBounds \<Rightarrow> MapBounds \<Rightarrow> bool" where
  "boundsOverlap bounds1 bounds2 =
     (\<not> (east bounds1 < west bounds2 \<or>
         east bounds2 < west bounds1 \<or>
         north bounds1 < south bounds2 \<or>
         north bounds2 < south bounds1))"

definition viennaBounds :: MapBounds where
  "viennaBounds = \<lparr>north = 48.35, south = 48.10, east = 16.60, west = 16.20\<rparr>"

definition isWithinVienna :: "MapBounds \<Rightarrow> bool" where
  "isWithinVienna bounds = boundsOverlap bounds viennaBounds"

text \<open>
  The invariant the data model puts on bounds: the north edge is not below the south
  edge and the east edge is not left of the west edge.
\<close>

definition wellFormed :: "MapBounds \<Rightarrow> bool" where
  "wellFormed b = (south b \<le> north b \<and> west b \<le> east b)"

section \<open>The bounds cache (class BoundsCache)\<close>

subsection \<open>The JavaScript Map\<close>

text \<open>
  A \<open>Map\<close> iterates in insertion order: it is a list of key-value pairs with distinct
  keys. \<open>set\<close> on a key already present replaces the value where the key stands; on a
  new key it appends. \<open>delete\<close> removes the pair.
\<close>

fun Map_get :: "'k \<Rightarrow> ('k \<times> 'v) list \<Rightarrow> 'v option" where
  "Map_get k [] = None"
| "Map_get k ((k', v') # m) = (if k' = k then Some v' else Map_get k m)"

fun Map_set :: "'k \<Rightarrow> 'v \<Rightarrow> ('k \<times> 'v) list \<Rightarrow> ('k \<times> 'v) list" where
  "Map_set k v [] = [(k, v)]"
| "Map_set k v ((k', v') # m) =
     (if k' = k then (k, v) # m else (k', v') # Map_set k v m)"

fun Map_delete :: "'k \<Rightarrow> ('k \<times> 'v) list \<Rightarrow> ('k \<times> 'v) list" where
  "Map_delete k [] = []"
| "Map_delete k ((k', v') # m) =
     (if k' = k then m else (k', v') # Map_delete k m)"

text \<open>The keys in iteration order; \<open>keys().next().value\<close> is the first of them.\<close>

definition Map_keys :: "('k \<times> 'v) list \<Rightarrow> 'k list" where
  "Map_keys m = map fst m"

subsection \<open>The cache\<close>

text \<open>
  The stored object of an entry. The cache holds data of any type; \<open>timestamp\<close> is the
  reading of \<open>Date.now()\<close> at insertion, passed in as \<open>now\<close>.
\<close>

record 'd cached =
  data :: 'd
  timestamp :: nat
  bounds :: MapBounds

record 'd BoundsCache =
  cache :: "(string \<times> 'd cached) list"
  maxSize :: nat

definition newBoundsCache :: "'d BoundsCache" where
  "newBoundsCache = \<lparr>cache = [], maxSize = 50\<rparr>"

definition BoundsCache_set :: "nat \<Rightarrow> MapBounds \<Rightarrow> 'd \<Rightarrow> 'd BoundsCache \<Rightarrow> 'd BoundsCache" where
  "BoundsCache_set now b d c =
     (let key = boundsToKey b;
          m = (if length (cache c) \<ge> maxSize c
               then (case Map_keys (cache c) of
                       [] \<Rightarrow> cache c
                     | firstKey # _ \<Rightarrow> Map_delete firstKey (cache c))
               else cache c)
      in c\<lparr>cache := Map_set key \<lparr>data = d, timestamp = now, bounds = b\<rparr> m\<rparr>)"

text \<open>The result of \<open>get\<close> is the data or \<open>null\<close> (\<open>None\<close>), and the cache after the call.\<close>

definition BoundsCache_get :: "MapBounds \<Rightarrow> 'd BoundsCache \<Rightarrow> 'd option \<times> 'd BoundsCache" where
  "BoundsCache_get b c =
     (let key = boundsToKey b
      in case Map_get key (cache c) of
           Some entry \<Rightarrow>
             (Some (data entry), c\<lparr>cache := Map_set key entry (Map_delete key (cache c))\<rparr>)
         | None \<Rightarrow> (None, c))"

definition BoundsCache_findOverlapping :: "MapBounds \<Rightarrow> 'd BoundsCache \<Rightarrow> 'd list" where
  "BoundsCache_findOverlapping b c =
     map (\<lambda>(k, entry). data entry)
       (filter (\<lambda>(k, entry). boundsOverlap b (bounds entry)) (cache c))"

definition BoundsCache_clear :: "'d BoundsCache \<Rightarrow> 'd BoundsCache" where
  "BoundsCache_clear c = c\<lparr>cache := []\<rparr>"

definition BoundsCache_size :: "'d BoundsCache \<Rightarrow> nat" where
  "BoundsCache_size c = length (cache c)"

text \<open>A sequence of calls on one cache; the results of the reading calls are dropped.\<close>

datatype 'd cacheOp =
    OpSet nat MapBounds 'd
  | OpGet MapBounds
  | OpFindOverlapping MapBounds
  | OpClear
  | OpSize

fun applyOp :: "'d BoundsCache \<Rightarrow> 'd cacheOp \<Rightarrow> 'd BoundsCache" where
  "applyOp c (OpSet now b d) = BoundsCache_set now b d c"
| "applyOp c (OpGet b) = snd (BoundsCache_get b c)"
| "applyOp c (OpFindOverlapping b) = c"
| "applyOp c OpClear = BoundsCache_clear c"
| "applyOp c OpSize = c"

definition applyOps :: "'d BoundsCache \<Rightarrow> 'd cacheOp list \<Rightarrow> 'd BoundsCache" where
  "applyOps c ops = foldl applyOp c ops"

section \<open>The geometry converter (hook useViewportBuildings, in src/Components/Layout/SiteInfoPanel.tsx)\<close>

subsection \<open>Values of the upstream payload\<close>

text \<open>
  Tags are a JSON object of strings. A string of the program is represented by its
  UTF-8 encoding, one \<open>char\<close> a byte, so that text in ASCII is the text itself. A lookup
  gives \<open>None\<close> for \<open>undefined\<close>; a value is truthy when it is present and not the
  empty string. \<open>orElse\<close> is the operator \<open>||\<close>, and \<open>render\<close> is the text a template
  string puts in for a value.
\<close>

type_synonym tags = "string \<Rightarrow> string option"

definition truthy :: "string option \<Rightarrow> bool" where
  "truthy v = (case v of None \<Rightarrow> False | Some s \<Rightarrow> s \<noteq> [])"

definition orElse :: "string option \<Rightarrow> string option \<Rightarrow> string option" where
  "orElse a b = (if truthy a then a else b)"

definition render :: "string option \<Rightarrow> string" where
  "render v = (case v of None \<Rightarrow> ''undefined'' | Some s \<Rightarrow> s)"

text \<open>
  A node of a geometry array: \<open>lon\<close> and \<open>lat\<close> are \<open>None\<close> when the field is missing or
  is not of type number. An entry of the array may be \<open>null\<close>. The numbers of a parsed
  JSON body are never not-a-number; one too large for a double is infinite and fails
  the test of the coordinate ranges as any large real does.
\<close>

record node =
  lon :: "real option"
  lat :: "real option"

record member =
  mtype :: string
  role :: string
  mgeometry :: "node option list option"

text \<open>
  An element of the response. \<open>etype\<close> is its \<open>type\<close> field, which is only compared with
  \<open>'way'\<close> and \<open>'relation'\<close>; \<open>tags\<close>, \<open>geometry\<close> and \<open>members\<close> are \<open>None\<close> when absent.
  The elements array may be absent from the payload, and may hold \<open>null\<close>.
\<close>

record element =
  etype :: string
  tags :: "tags option"
  geometry :: "node option list option"
  members :: "member option list option"

type_synonym payload = "element option list option"

subsection \<open>The emitted feature\<close>

text \<open>
  The numbers \<open>parseInt\<close> can return: not-a-number, an integer that is a double,
  negative zero, and the two infinities.
\<close>

datatype jsnumber = NaN | Num int | MinusZero | PlusInfinity | MinusInfinity

text \<open>
  The property bag and the feature. The constant fields (\<open>type: 'Feature'\<close>,
  \<open>geometry.type: 'Polygon'\<close>) are left out; \<open>coordinates\<close> is \<open>geometry.coordinates\<close>, a
  list of rings, a ring a list of points, a point a list of numbers. A property is
  \<open>None\<close> when it is \<open>undefined\<close> or was never assigned.
\<close>

record properties =
  ADRESSE :: "string option"
  BAUWEISE :: "string option"
  STOCKWERKE :: "jsnumber option"
  BAUJAHR :: "jsnumber option"
  NAME :: "string option"

record ViennaBuilding =
  props :: properties
  coordinates :: "real list list list"

subsection \<open>Classification\<close>

definition getBuildingType :: "tags \<Rightarrow> string" where
  "getBuildingType t =
     (if truthy (t ''building'') \<and> t ''building'' \<noteq> Some ''yes'' then render (t ''building'')
      else if truthy (t ''building:part'') then render (t ''building:part'')
      else if truthy (t ''landuse'') then render (t ''landuse'') @ '' area''
      else if truthy (t ''man_made'') then render (t ''man_made'')
      else if truthy (t ''amenity'') then render (t ''amenity'')
      else if truthy (t ''leisure'') then render (t ''leisure'')
      else if truthy (t ''shop'') then ''shop ('' @ render (t ''shop'') @ '')''
      else if truthy (t ''office'') then ''office''
      else if truthy (t ''tourism'') then render (t ''tourism'')
      else if truthy (t ''historic'') then render (t ''historic'')
      else if truthy (t ''aeroway'') then render (t ''aeroway'')
      else if truthy (t ''railway'') then render (t ''railway'')
      else if truthy (t ''public_transport'') then render (t ''public_transport'')
      else if truthy (t ''craft'') then render (t ''craft'')
      else if truthy (t ''industrial'') then render (t ''industrial'')
      else ''structure'')"

definition getBuildingTypeLabel :: "tags \<Rightarrow> string" where
  "getBuildingTypeLabel t =
     (if truthy (t ''building'') \<and> t ''building'' \<noteq> Some ''yes''
        then render (t ''building'') @ '' building''
      else if truthy (t ''building:part'') then ''building part''
      else if truthy (t ''landuse'') then render (t ''landuse'') @ '' area''
      else if truthy (t ''man_made'') then render (t ''man_made'')
      else if truthy (t ''amenity'') then render (t ''amenity'')
      else if truthy (t ''leisure'') then render (t ''leisure'')
      else if truthy (t ''shop'') then ''shop''
      else if truthy (t ''office'') then ''office building''
      else ''Vienna Structure'')"

definition hasStructureTag :: "tags \<Rightarrow> bool" where
  "hasStructureTag t =
     (truthy (t ''building'') \<or> truthy (t ''building:part'') \<or> truthy (t ''landuse'') \<or>
      truthy (t ''man_made'') \<or> truthy (t ''amenity'') \<or> truthy (t ''leisure'') \<or>
      truthy (t ''shop'') \<or> truthy (t ''office'') \<or> truthy (t ''tourism'') \<or>
      truthy (t ''historic'') \<or> truthy (t ''aeroway'') \<or> truthy (t ''railway'') \<or>
      truthy (t ''public_transport'') \<or> truthy (t ''craft'') \<or> truthy (t ''industrial''))"

subsection \<open>parseInt\<close>

text \<open>
  \<open>parseInt(s)\<close> with no radix: leading white space is dropped, a sign is read, the radix
  is 16 after a prefix \<open>0x\<close> or \<open>0X\<close> and 10 otherwise, and the longest run of digits of
  that radix is the value, converted to a number; with no digit the result is
  not-a-number. Text after the digits is ignored.

  The white space of the language, in UTF-8: tab, line feed, vertical tab, form feed,
  carriage return and space; the no-break space U+00A0; U+1680; U+2000 to U+200A; the
  line and paragraph separators U+2028 and U+2029; U+202F; U+205F; U+3000; and the
  byte order mark U+FEFF.
\<close>

definition whiteSpaceTable :: "string list" where
  "whiteSpaceTable =
     [[CHR 0x09], [CHR 0x0A], [CHR 0x0B], [CHR 0x0C], [CHR 0x0D], [CHR 0x20],
      [CHR 0xC2, CHR 0xA0],
      [CHR 0xE1, CHR 0x9A, CHR 0x80],
      [CHR 0xE2, CHR 0x80, CHR 0x80], [CHR 0xE2, CHR 0x80, CHR 0x81],
      [CHR 0xE2, CHR 0x80, CHR 0x82], [CHR 0xE2, CHR 0x80, CHR 0x83],
      [CHR 0xE2, CHR 0x80, CHR 0x84], [CHR 0xE2, CHR 0x80, CHR 0x85],
      [CHR 0xE2, CHR 0x80, CHR 0x86], [CHR 0xE2, CHR 0x80, CHR 0x87],
      [CHR 0xE2, CHR 0x80, CHR 0x88], [CHR 0xE2, CHR 0x80, CHR 0x89],
      [CHR 0xE2, CHR 0x80, CHR 0x8A],
      [CHR 0xE2, CHR 0x80, CHR 0xA8], [CHR 0xE2, CHR 0x80, CHR 0xA9],
      [CHR 0xE2, CHR 0x80, CHR 0xAF],
      [CHR 0xE2, CHR 0x81, CHR 0x9F],
      [CHR 0xE3, CHR 0x80, CHR 0x80],
      [CHR 0xEF, CHR 0xBB, CHR 0xBF]]"

text \<open>
  The number of bytes of the white space character a text starts with, 0 when it
  starts with none.
\<close>

definition whiteSpaceLength :: "string \<Rightarrow> nat" where
  "whiteSpaceLength s =
     (case find (\<lambda>w. take (length w) s = w) whiteSpaceTable of
        Some w \<Rightarrow> length w
      | None \<Rightarrow> 0)"

lemma whiteSpaceLength_le: "whiteSpaceLength s \<le> length s"
proof (cases "find (\<lambda>w. take (length w) s = w) whiteSpaceTable")
  case None
  then show ?thesis by (simp add: whiteSpaceLength_def)
next
  case (Some w)
  then have "take (length w) s = w" by (auto simp: find_Some_iff)
  then have "length w \<le> length s"
    by (metis length_take min.cobounded2 min.commute)
  with Some show ?thesis by (simp add: whiteSpaceLength_def)
qed

function trimStart :: "string \<Rightarrow> string" where
  "trimStart s =
     (if whiteSpaceLength s = 0 then s else trimStart (drop (whiteSpaceLength s) s))"
  by pat_completeness auto
termination
proof (relation "measure length")
  show "wf (measure length)" by simp
next
  fix s :: string
  assume "whiteSpaceLength s \<noteq> 0"
  then show "(drop (whiteSpaceLength s) s, s) \<in> measure length"
    using whiteSpaceLength_le [of s] by simp
qed

declare trimStart.simps [simp del]

definition digitTable :: "(char \<times> nat) list" where
  "digitTable =
     [(CHR ''0'', 0), (CHR ''1'', 1), (CHR ''2'', 2), (CHR ''3'', 3), (CHR ''4'', 4),
      (CHR ''5'', 5), (CHR ''6'', 6), (CHR ''7'', 7), (CHR ''8'', 8), (CHR ''9'', 9),
      (CHR ''a'', 10), (CHR ''b'', 11), (CHR ''c'', 12), (CHR ''d'', 13), (CHR ''e'', 14),
      (CHR ''f'', 15), (CHR ''A'', 10), (CHR ''B'', 11), (CHR ''C'', 12), (CHR ''D'', 13),
      (CHR ''E'', 14), (CHR ''F'', 15)]"

definition digitValue :: "nat \<Rightarrow> char \<Rightarrow> nat option" where
  "digitValue R c =
     (case map_of digitTable c of
        Some d \<Rightarrow> if d < R then Some d else None
      | None \<Rightarrow> None)"

text \<open>The value of the longest prefix of radix-\<open>R\<close> digits, continuing from \<open>acc\<close>.\<close>

fun digitsValue :: "nat \<Rightarrow> nat \<Rightarrow> string \<Rightarrow> nat" where
  "digitsValue R acc [] = acc"
| "digitsValue R acc (c # cs) =
     (case digitValue R c of
        Some d \<Rightarrow> digitsValue R (acc * R + d) cs
      | None \<Rightarrow> acc)"

text \<open>The number of binary digits of a natural number.\<close>

fun bitLength :: "nat \<Rightarrow> nat" where
  "bitLength n = (if n = 0 then 0 else Suc (bitLength (n div 2)))"

declare bitLength.simps [simp del]

text \<open>
  The number for a sign and a magnitude. Zero with a minus sign is negative zero. A
  magnitude of more than 53 binary digits is rounded to 53, to the nearest and on a
  tie to the even one, which gives the double nearest to it; from \<open>2^1024\<close> on the
  result is infinite.
\<close>

definition toNumber :: "bool \<Rightarrow> nat \<Rightarrow> jsnumber" where
  "toNumber negative m =
     (if m = 0 then (if negative then MinusZero else Num 0)
      else
        let e = bitLength m - 53;
            q = m div 2 ^ e;
            r = m mod 2 ^ e;
            q' = (if 2 * r > 2 ^ e \<or> (2 * r = 2 ^ e \<and> odd q) then q + 1 else q);
            v = q' * 2 ^ e
        in if v \<ge> 2 ^ 1024 then (if negative then MinusInfinity else PlusInfinity)
           else Num (if negative then - int v else int v))"

definition parseDigits :: "bool \<Rightarrow> nat \<Rightarrow> string \<Rightarrow> jsnumber" where
  "parseDigits negative R z =
     (case z of
        [] \<Rightarrow> NaN
      | c # _ \<Rightarrow>
          if digitValue R c = None then NaN
          else toNumber negative (digitsValue R 0 z))"

definition parseInt :: "string \<Rightarrow> jsnumber" where
  "parseInt inputString =
     (let s = trimStart inputString;
          negative = (take 1 s = ''-'');
          s1 = (if take 1 s = ''+'' \<or> take 1 s = ''-'' then drop 1 s else s)
      in if take 2 s1 = ''0x'' \<or> take 2 s1 = ''0X''
         then parseDigits negative 16 (drop 2 s1)
         else parseDigits negative 10 s1)"

subsection \<open>convertOSMToGeoJSON\<close>

text \<open>
  The nodes that are objects with numeric \<open>lon\<close> and \<open>lat\<close>, each mapped to the point
  \<open>[lon, lat]\<close>.
\<close>

fun nodesToCoords :: "node option list \<Rightarrow> real list list" where
  "nodesToCoords [] = []"
| "nodesToCoords (None # ns) = nodesToCoords ns"
| "nodesToCoords (Some n # ns) =
     (case (lon n, lat n) of
        (Some x, Some y) \<Rightarrow> [x, y] # nodesToCoords ns
      | _ \<Rightarrow> nodesToCoords ns)"

text \<open>
  The test of \<open>coords.some\<close>. The points are arrays of numbers by construction, so the
  tests on the type of a point and of its entries are those of the types of the model.
\<close>

definition invalidCoord :: "real list \<Rightarrow> bool" where
  "invalidCoord coord =
     (length coord \<noteq> 2 \<or>
      coord ! 0 < 16.0 \<or> coord ! 0 > 17.0 \<or>
      coord ! 1 < 48.0 \<or> coord ! 1 > 48.5)"

text \<open>
  Closing the ring. It runs after the length test and the coordinate test, on a list
  of at least four points of two numbers each.
\<close>

definition closeRing :: "real list list \<Rightarrow> real list list" where
  "closeRing coords =
     (let firstCoord = hd coords; lastCoord = last coords
      in if firstCoord ! 0 \<noteq> lastCoord ! 0 \<or> firstCoord ! 1 \<noteq> lastCoord ! 1
         then coords @ [[firstCoord ! 0, firstCoord ! 1]]
         else coords)"

definition outerWay :: "member \<Rightarrow> bool" where
  "outerWay m = (mtype m = ''way'' \<and> role m = ''outer'' \<and> mgeometry m \<noteq> None)"

text \<open>
  The coordinates read inside the \<open>try\<close> block: \<open>None\<close> when the block throws, which
  happens when the filter over the members reads a field of a \<open>null\<close> member.
\<close>

definition extractCoords :: "element \<Rightarrow> node option list \<Rightarrow> real list list option" where
  "extractCoords el g =
     (if etype el = ''way'' then Some (nodesToCoords g)
      else if etype el = ''relation'' \<and> members el \<noteq> None then
        (case members el of
           None \<Rightarrow> Some []
         | Some ms \<Rightarrow>
             if None \<in> set ms then None
             else (case filter outerWay (map the ms) of
                     [] \<Rightarrow> Some []
                   | w # _ \<Rightarrow>
                       (case mgeometry w of
                          None \<Rightarrow> Some []
                        | Some wg \<Rightarrow> Some (nodesToCoords wg))))
      else Some [])"

definition makeBuilding :: "tags \<Rightarrow> real list list \<Rightarrow> ViennaBuilding" where
  "makeBuilding t coords =
     \<lparr>props =
        \<lparr>ADRESSE =
           (if truthy (t ''addr:street'') \<and> truthy (t ''addr:housenumber'')
            then Some (render (t ''addr:street'') @ '' '' @ render (t ''addr:housenumber''))
            else if truthy (t ''name'') then t ''name''
            else Some (getBuildingTypeLabel t)),
         BAUWEISE = Some (getBuildingType t),
         STOCKWERKE =
           (if truthy (orElse (t ''building:levels'') (t ''levels''))
            then Some (parseInt (render (orElse (t ''building:levels'') (t ''levels''))))
            else None),
         BAUJAHR = None,
         NAME = (if truthy (t ''name'') then t ''name'' else None)\<rparr>,
      coordinates = [coords]\<rparr>"

text \<open>
  The body of the \<open>forEach\<close> callback for one element that is not \<open>null\<close>: the feature
  pushed, or \<open>None\<close> when the callback returns without pushing (an early return, or an
  exception caught by its own \<open>catch\<close>).
\<close>

definition convertElement :: "element \<Rightarrow> ViennaBuilding option" where
  "convertElement el =
     (case (geometry el, tags el) of
        (Some g, Some t) \<Rightarrow>
          if \<not> hasStructureTag t \<and> \<not> (etype el = ''way'' \<and> length g > 3) then None
          else (case extractCoords el g of
                  None \<Rightarrow> None
                | Some coords \<Rightarrow>
                    if length coords < 4 then None
                    else if list_ex invalidCoord coords then None
                    else if length (closeRing coords) > 100 then None
                    else Some (makeBuilding t (closeRing coords)))
      | _ \<Rightarrow> None)"

text \<open>
  A value that was thrown: an \<open>Error\<close> object with its message, or anything else.
\<close>

datatype thrown = ErrorObject string | OtherValue

text \<open>
  Reading a field of a \<open>null\<close> element happens before the \<open>try\<close> block, so the type error
  leaves the callback, the loop and the converter. The wording of its message belongs
  to the engine.
\<close>

definition nullElementError :: thrown where
  "nullElementError = ErrorObject ''Cannot read properties of null (reading 'geometry')''"

fun convertElements :: "element option list \<Rightarrow> ViennaBuilding list \<Rightarrow> thrown + ViennaBuilding list" where
  "convertElements [] validBuildings = Inr validBuildings"
| "convertElements (None # es) validBuildings = Inl nullElementError"
| "convertElements (Some el # es) validBuildings =
     (case convertElement el of
        None \<Rightarrow> convertElements es validBuildings
      | Some building \<Rightarrow> convertElements es (validBuildings @ [building]))"

definition convertOSMToGeoJSON :: "payload \<Rightarrow> thrown + ViennaBuilding list" where
  "convertOSMToGeoJSON d =
     (case d of
        None \<Rightarrow> Inr []
      | Some es \<Rightarrow> convertElements es [])"

section \<open>The viewport loader (hook useViewportBuildings)\<close>

text \<open>
  The state the hook works on: the three pieces of component state, the set behind
  \<open>loadingRef\<close>, and the module's cache \<open>buildingCache\<close>, which stores the feature list of
  each collection it is given. A state update is applied where the code requests it.
\<close>

record loaderState =
  buildings :: "ViennaBuilding list"
  loading :: bool
  error :: "string option"
  loadingRef :: "numstr set"
  buildingCache :: "ViennaBuilding list BoundsCache"

definition initialState :: loaderState where
  "initialState =
     \<lparr>buildings = [], loading = False, error = None, loadingRef = {},
      buildingCache = newBoundsCache\<rparr>"

text \<open>
  The key of a feature in the merge: its first ring point, joined with commas. Every
  feature the converter emits has one; \<open>None\<close> stands for a feature without a first ring
  or a first point.
\<close>

definition firstPointKey :: "ViennaBuilding \<Rightarrow> numstr option" where
  "firstPointKey f =
     (case coordinates f of
        (p # _) # _ \<Rightarrow> Some p
      | _ \<Rightarrow> None)"

text \<open>The updater passed to \<open>setBuildings\<close> after a fetch.\<close>

definition mergeBuildings :: "ViennaBuilding list \<Rightarrow> ViennaBuilding list \<Rightarrow> ViennaBuilding list" where
  "mergeBuildings prev newBuildings =
     (let existingCoords = set (map firstPointKey prev);
          uniqueNewBuildings = filter (\<lambda>building. firstPointKey building \<notin> existingCoords) newBuildings
      in prev @ uniqueNewBuildings)"

text \<open>
  What the awaited part of a call comes back with: the fetch rejects; the response has
  a status that is not a success; reading the body as JSON rejects; or the body parses
  to a payload.
\<close>

datatype response =
    FetchRejected thrown
  | StatusNotOk nat
  | JsonRejected thrown
  | JsonBody payload

text \<open>
  \<open>loadBuildings\<close> up to its first \<open>await\<close>. The result is the new state and, when the
  fetch was started, the bounding box it asks for.
\<close>

definition loadBuildings_begin :: "MapBounds \<Rightarrow> loaderState \<Rightarrow> loaderState \<times> numstr option" where
  "loadBuildings_begin b s =
     (if \<not> isWithinVienna b then (s, None)
      else
        let bufferedBounds = addBoundsBuffer b 0.3;
            bbox = boundsToOverpassBbox bufferedBounds;
            boundsKey = bbox
        in if boundsKey \<in> loadingRef s then (s, None)
           else (case BoundsCache_get bufferedBounds (buildingCache s) of
                   (Some cachedData, c) \<Rightarrow>
                     (s\<lparr>buildingCache := c, buildings := buildings s @ cachedData\<rparr>, None)
                 | (None, c) \<Rightarrow>
                     (s\<lparr>buildingCache := c, loading := True, error := None,
                        loadingRef := insert boundsKey (loadingRef s)\<rparr>,
                      Some bbox)))"

text \<open>The \<open>catch\<close> block.\<close>

definition catchError :: "thrown \<Rightarrow> loaderState \<Rightarrow> loaderState" where
  "catchError err s =
     s\<lparr>error := Some (case err of
                       ErrorObject message \<Rightarrow> message
                     | OtherValue \<Rightarrow> ''Failed to load buildings'')\<rparr>"

text \<open>
  The rest of the \<open>try\<close> block once the awaited values are there, for the call made with
  bounds \<open>b\<close>; \<open>now\<close> is the clock read by the cache.
\<close>

definition tryBody :: "nat \<Rightarrow> MapBounds \<Rightarrow> response \<Rightarrow> loaderState \<Rightarrow> thrown + loaderState" where
  "tryBody now b r s =
     (case r of
        FetchRejected err \<Rightarrow> Inl err
      | StatusNotOk status \<Rightarrow> Inl (ErrorObject (''Overpass API failed: '' @ digitsOf status))
      | JsonRejected err \<Rightarrow> Inl err
      | JsonBody d \<Rightarrow>
          (case convertOSMToGeoJSON d of
             Inl err \<Rightarrow> Inl err
           | Inr newBuildings \<Rightarrow>
               Inr (s\<lparr>buildingCache :=
                        BoundsCache_set now (addBoundsBuffer b 0.3) newBuildings (buildingCache s),
                      buildings := mergeBuildings (buildings s) newBuildings\<rparr>)))"

text \<open>\<open>loadBuildings\<close> from the first \<open>await\<close> to its end, the \<open>finally\<close> block last.\<close>

definition loadBuildings_resume :: "nat \<Rightarrow> MapBounds \<Rightarrow> response \<Rightarrow> loaderState \<Rightarrow> loaderState" where
  "loadBuildings_resume now b r s =
     (let boundsKey = boundsToOverpassBbox (addBoundsBuffer b 0.3);
          s1 = (case tryBody now b r s of
                  Inl err \<Rightarrow> catchError err s
                | Inr s' \<Rightarrow> s')
      in s1\<lparr>loading := False, loadingRef := loadingRef s1 - {boundsKey}\<rparr>)"

definition clearCache :: "loaderState \<Rightarrow> loaderState" where
  "clearCache s = s\<lparr>buildingCache := BoundsCache_clear (buildingCache s), buildings := []\<rparr>"

subsection \<open>Interleaved calls\<close>

text \<open>
  The host runs one task at a time and a call gives way only at its \<open>await\<close>. The world
  is the loader state together with the calls that are suspended there, each known by
  the bounds it was made with, and the log of the fetches started so far. An event is a
  new call, the return of a suspended call (picked by its position) with what it
  awaited, or a call of \<open>clearCache\<close>. The two \<open>await\<close>s of a call are one suspension: the
  call changes no state between them.
\<close>

record world =
  state :: loaderState
  suspended :: "MapBounds list"
  fetches :: "numstr list"

datatype event =
    Call MapBounds
  | Return nat nat response
  | ClearCache

definition initialWorld :: world where
  "initialWorld = \<lparr>state = initialState, suspended = [], fetches = []\<rparr>"

fun fire :: "world \<Rightarrow> event \<Rightarrow> world" where
  "fire w (Call b) =
     (case loadBuildings_begin b (state w) of
        (s, None) \<Rightarrow> w\<lparr>state := s\<rparr>
      | (s, Some bbox) \<Rightarrow>
          w\<lparr>state := s, suspended := suspended w @ [b], fetches := fetches w @ [bbox]\<rparr>)"
| "fire w (Return i now r) =
     (if i < length (suspended w)
      then w\<lparr>state := loadBuildings_resume now (suspended w ! i) r (state w),
             suspended := take i (suspended w) @ drop (Suc i) (suspended w)\<rparr>
      else w)"
| "fire w ClearCache = w\<lparr>state := clearCache (state w)\<rparr>"

definition run :: "world \<Rightarrow> event list \<Rightarrow> world" where
  "run w evs = foldl fire w evs"

text \<open>The in-flight key of a call made with bounds \<open>b\<close>.\<close>

definition keyOf :: "MapBounds \<Rightarrow> numstr" where
  "keyOf b = boundsToOverpassBbox (addBoundsBuffer b 0.3)"

text \<open>
  The property asked of the accumulated set: no two features at different positions
  have the same first ring point.
\<close>

definition noSharedFirstPoint :: "ViennaBuilding list \<Rightarrow> bool" where
  "noSharedFirstPoint fs = distinct (map firstPointKey fs)"

section \<open>Definitions used to state the properties\<close>

text \<open>
  The representation invariant of a cache: the keys of the underlying Map are distinct,
  as in every Map, and there are no more entries than \<open>maxSize\<close>.
\<close>

definition cacheInv :: "'d BoundsCache \<Rightarrow> bool" where
  "cacheInv c = (distinct (Map_keys (cache c)) \<and> length (cache c) \<le> maxSize c)"

text \<open>
  An insertion given as the triple of clock reading, bounds and data, and the key the
  insertion uses.
\<close>

definition setOp :: "nat \<times> MapBounds \<times> 'd \<Rightarrow> 'd cacheOp" where
  "setOp e = (case e of (now, b, d) \<Rightarrow> OpSet now b d)"

definition entryKey :: "nat \<times> MapBounds \<times> 'd \<Rightarrow> string" where
  "entryKey e = (case e of (now, b, d) \<Rightarrow> boundsToKey b)"

text \<open>
  The uses of cache entries during a sequence of calls, oldest first: an insertion uses
  its key, and so does a \<open>get\<close> that finds its key. \<open>byLastUse\<close> puts the keys that are
  present in the order of their last use, the least recently used first.
\<close>

fun usesOf :: "'d BoundsCache \<Rightarrow> 'd cacheOp list \<Rightarrow> string list" where
  "usesOf c [] = []"
| "usesOf c (OpSet now b d # ops) = boundsToKey b # usesOf (BoundsCache_set now b d c) ops"
| "usesOf c (OpGet b # ops) =
     (if boundsToKey b \<in> set (Map_keys (cache c)) then [boundsToKey b] else []) @
     usesOf (snd (BoundsCache_get b c)) ops"
| "usesOf c (op # ops) = usesOf (applyOp c op) ops"

definition byLastUse :: "string list \<Rightarrow> string list \<Rightarrow> string list" where
  "byLastUse present uses = filter (\<lambda>k. k \<in> set present) (remdups uses)"

text \<open>
  A sequence of calls in which every insertion is of a signature that is not in the
  cache at that moment.
\<close>

fun insertsOnly :: "'d BoundsCache \<Rightarrow> 'd cacheOp list \<Rightarrow> bool" where
  "insertsOnly c [] = True"
| "insertsOnly c (OpSet now b d # ops) =
     (boundsToKey b \<notin> set (Map_keys (cache c)) \<and> insertsOnly (BoundsCache_set now b d c) ops)"
| "insertsOnly c (op # ops) = insertsOnly (applyOp c op) ops"

text \<open>Three viewports in the centre of Vienna, used as concrete inputs.\<close>

definition regionA :: MapBounds where
  "regionA = \<lparr>north = 48.21, south = 48.20, east = 16.38, west = 16.37\<rparr>"

definition regionB :: MapBounds where
  "regionB = \<lparr>north = 48.22, south = 48.21, east = 16.38, west = 16.37\<rparr>"

definition regionC :: MapBounds where
  "regionC = \<lparr>north = 48.23, south = 48.22, east = 16.38, west = 16.37\<rparr>"

text \<open>
  Fifty-one viewports with pairwise different signatures, and a history of calls that
  fills the cache of capacity 50: tile 1 is cached, then tile 2, then tile 1 again with
  new data, then the tiles 3 to 50.
\<close>

definition tile :: "nat \<Rightarrow> MapBounds" where
  "tile n = \<lparr>north = real n, south = 0, east = 1, west = 0\<rparr>"

definition tileEntry :: "nat \<Rightarrow> nat \<times> MapBounds \<times> nat" where
  "tileEntry n = (n, tile n, n)"

definition fillers :: "nat list" where
  "fillers = [3..<51]"

definition fullHistory :: "nat cacheOp list" where
  "fullHistory =
     [OpSet 0 (tile 1) 1, OpSet 1 (tile 2) 2, OpSet 2 (tile 1) 100] @
     map (\<lambda>n. OpSet n (tile n) n) [3..<51]"

text \<open>
  Region A with its north edge moved by a hundred-thousandth of a degree. Buffered, it
  rounds to the same four decimals as region A on every edge.
\<close>

definition regionA2 :: MapBounds where
  "regionA2 = \<lparr>north = 48.21001, south = 48.20, east = 16.38, west = 16.37\<rparr>"

text \<open>
  A way with the tags of a house on the Graben. \<open>nodeAt\<close> is a well-formed node of the
  response and \<open>pointOf\<close> the point it becomes.
\<close>

definition grabenTags :: tags where
  "grabenTags =
     [''building'' \<mapsto> ''yes'', ''addr:street'' \<mapsto> ''Graben'', ''addr:housenumber'' \<mapsto> ''21'']"

definition nodeAt :: "real \<times> real \<Rightarrow> node option" where
  "nodeAt p = (case p of (x, y) \<Rightarrow> Some \<lparr>lon = Some x, lat = Some y\<rparr>)"

definition pointOf :: "real \<times> real \<Rightarrow> real list" where
  "pointOf p = (case p of (x, y) \<Rightarrow> [x, y])"

definition wayOf :: "tags \<Rightarrow> (real \<times> real) list \<Rightarrow> element" where
  "wayOf t pts = \<lparr>etype = ''way'', tags = Some t, geometry = Some (map nodeAt pts), members = None\<rparr>"

text \<open>Five nodes around a block, the last one different from the first.\<close>

definition fiveNodes :: "(real \<times> real) list" where
  "fiveNodes =
     [(16.3690, 48.2080), (16.3700, 48.2080), (16.3705, 48.2085), (16.3700, 48.2090),
      (16.3690, 48.2090)]"

definition grabenProps :: properties where
  "grabenProps =
     \<lparr>ADRESSE = Some ''Graben 21'', BAUWEISE = Some ''structure'', STOCKWERKE = None,
      BAUJAHR = None, NAME = None\<rparr>"

text \<open>The home bounding box of the converter, on a pair of longitude and latitude.\<close>

definition inBox :: "real \<times> real \<Rightarrow> bool" where
  "inBox p = (case p of (x, y) \<Rightarrow> 16 \<le> x \<and> x \<le> 17 \<and> 48 \<le> y \<and> y \<le> 48.5)"

text \<open>
  The payload with the one way over the five nodes, and the feature it converts to:
  the five points and the first point once more.
\<close>

definition grabenPayload :: payload where
  "grabenPayload = Some [Some (wayOf grabenTags fiveNodes)]"

definition grabenFeature :: ViennaBuilding where
  "grabenFeature =
     \<lparr>props = grabenProps,
      coordinates = [map pointOf fiveNodes @ [pointOf (hd fiveNodes)]]\<rparr>"

text \<open>Five nodes of which the last repeats the first, and three nodes.\<close>

definition closedFive :: "(real \<times> real) list" where
  "closedFive =
     [(16.3690, 48.2080), (16.3700, 48.2080), (16.3700, 48.2090), (16.3690, 48.2090),
      (16.3690, 48.2080)]"

definition threeNodes :: "(real \<times> real) list" where
  "threeNodes = [(16.3690, 48.2080), (16.3700, 48.2080), (16.3700, 48.2090)]"

text \<open>
  What the loader keeps true of the world: the suspended calls have pairwise different
  in-flight keys, and the in-flight set holds exactly their keys.
\<close>

definition inFlightInv :: "world \<Rightarrow> bool" where
  "inFlightInv w =
     (distinct (map keyOf (suspended w)) \<and>
      set (map keyOf (suspended w)) = loadingRef (state w))"

text \<open>A response counts as a failure when the \<open>try\<close> block ends by a throw.\<close>

definition isFailure :: "response \<Rightarrow> bool" where
  "isFailure r =
     (case r of
        JsonBody d \<Rightarrow> (case convertOSMToGeoJSON d of Inl err \<Rightarrow> True | Inr fs \<Rightarrow> False)
      | _ \<Rightarrow> True)"

text \<open>
  A loader state in the middle of the fetch for region A, with one feature accumulated
  before.
\<close>

definition busyState :: loaderState where
  "busyState =
     \<lparr>buildings = [grabenFeature], loading = True, error = None,
      loadingRef = {keyOf regionA}, buildingCache = newBoundsCache\<rparr>"


section \<open>Properties of the bounds utilities\<close>

lemma boundsOverlap_iff:
  "boundsOverlap A B =
     (west A \<le> east B \<and> west B \<le> east A \<and> south A \<le> north B \<and> south B \<le> north A)"
  by (auto simp: boundsOverlap_def)

lemma boundsOverlap_self: "boundsOverlap A A = wellFormed A"
  by (auto simp: boundsOverlap_iff wellFormed_def)

text \<open>
  C9. The overlap test is symmetric. A rectangle of the data model (north not below
  south, east not left of west) overlaps itself. Two rectangles that are apart on the
  longitude axis or on the latitude axis do not overlap. The test is the conjunction of
  four non-strict comparisons, so rectangles whose edges touch overlap: when the east
  edge of one is the west edge of the other and their latitude ranges meet, and when the
  north edge of one is the south edge of the other and their longitude ranges meet.
\<close>

theorem boundsOverlap_laws:
  "boundsOverlap A B = boundsOverlap B A \<and>
   (wellFormed A \<longrightarrow> boundsOverlap A A) \<and>
   (east A < west B \<or> east B < west A \<or> north A < south B \<or> north B < south A
      \<longrightarrow> \<not> boundsOverlap A B) \<and>
   (boundsOverlap A B =
      (west A \<le> east B \<and> west B \<le> east A \<and> south A \<le> north B \<and> south B \<le> north A)) \<and>
   (wellFormed A \<and> wellFormed B \<and> east A = west B \<and> south A \<le> north B \<and> south B \<le> north A
      \<longrightarrow> boundsOverlap A B) \<and>
   (wellFormed A \<and> wellFormed B \<and> north A = south B \<and> west A \<le> east B \<and> west B \<le> east A
      \<longrightarrow> boundsOverlap A B)"
  by (auto simp: boundsOverlap_iff wellFormed_def)

theorem boundsOverlap_laws_witness:
  "wellFormed \<lparr>north = 2, south = 1, east = 2, west = 1\<rparr> \<and>
   wellFormed \<lparr>north = 3, south = 2, east = 3, west = 2\<rparr> \<and>
   boundsOverlap \<lparr>north = 2, south = 1, east = 2, west = 1\<rparr>
                 \<lparr>north = 2, south = 1, east = 2, west = 1\<rparr> \<and>
   boundsOverlap \<lparr>north = 2, south = 1, east = 2, west = 1\<rparr>
                 \<lparr>north = 3, south = 2, east = 3, west = 2\<rparr> \<and>
   boundsOverlap \<lparr>north = 3, south = 2, east = 3, west = 2\<rparr>
                 \<lparr>north = 2, south = 1, east = 2, west = 1\<rparr> \<and>
   \<not> boundsOverlap \<lparr>north = 2, south = 1, east = 2, west = 1\<rparr>
                   \<lparr>north = 3, south = 2, east = 4, west = 3\<rparr>"
  using boundsOverlap_laws [of "\<lparr>north = 2, south = 1, east = 2, west = 1\<rparr>"
                               "\<lparr>north = 3, south = 2, east = 3, west = 2\<rparr>"]
        boundsOverlap_laws [of "\<lparr>north = 2, south = 1, east = 2, west = 1\<rparr>"
                               "\<lparr>north = 3, south = 2, east = 4, west = 3\<rparr>"]
  by (auto simp: wellFormed_def)

section \<open>Decimal digits\<close>

lemma below_ten: "(d::nat) < 10 \<Longrightarrow> d \<in> {0, 1, 2, 3, 4, 5, 6, 7, 8, 9}"
  by auto

lemma digitValue_digit: "d < 10 \<Longrightarrow> digitValue 10 (''0123456789'' ! d) = Some d"
  by (drule below_ten) (auto simp: digitValue_def digitTable_def)

lemma digitsValue_digitsOf:
  "digitsValue 10 acc (digitsOf n @ rest) =
     digitsValue 10 (acc * 10 ^ length (digitsOf n) + n) rest"
proof (induction n arbitrary: acc rest rule: digitsOf.induct)
  case (1 n)
  show ?case
  proof (cases "n < 10")
    case True
    then show ?thesis
      by (simp add: digitsOf.simps [of n] digitValue_digit)
  next
    case False
    have d: "digitValue 10 (''0123456789'' ! (n mod 10)) = Some (n mod 10)"
      by (rule digitValue_digit) simp
    have "digitsValue 10 acc (digitsOf n @ rest) =
            digitsValue 10 acc (digitsOf (n div 10) @ (''0123456789'' ! (n mod 10)) # rest)"
      using False by (simp add: digitsOf.simps [of n])
    also have "\<dots> = digitsValue 10 (acc * 10 ^ length (digitsOf (n div 10)) + n div 10)
                        ((''0123456789'' ! (n mod 10)) # rest)"
      using "1.IH" [OF False] by simp
    also have "\<dots> = digitsValue 10 (acc * 10 ^ length (digitsOf n) + n) rest"
      using False d by (simp add: digitsOf.simps [of n] algebra_simps)
    finally show ?thesis .
  qed
qed

text \<open>Reading the digits of a number gives the number back, so the digits determine it.\<close>

lemma digitsOf_inj: "digitsOf m = digitsOf n \<Longrightarrow> m = n"
proof -
  assume eq: "digitsOf m = digitsOf n"
  have "digitsValue 10 0 (digitsOf k @ []) = k" for k
    unfolding digitsValue_digitsOf by simp
  then have "digitsValue 10 0 (digitsOf k) = k" for k by simp
  then show ?thesis using eq by metis
qed

section \<open>Properties of the bounds cache\<close>

lemma Map_keys_simps [simp]:
  "Map_keys [] = []" "Map_keys ((k, v) # m) = k # Map_keys m"
  by (simp_all add: Map_keys_def)

lemma length_Map_keys [simp]: "length (Map_keys m) = length m"
  by (simp add: Map_keys_def)

lemma Map_keys_set:
  "Map_keys (Map_set k v m) = (if k \<in> set (Map_keys m) then Map_keys m else Map_keys m @ [k])"
  by (induction m) auto

lemma Map_keys_delete: "Map_keys (Map_delete k m) = remove1 k (Map_keys m)"
  by (induction m) auto

lemma Map_get_None_iff: "Map_get k m = None \<longleftrightarrow> k \<notin> set (Map_keys m)"
  by (induction m) (auto split: if_splits)

lemma Map_get_Some_in: "Map_get k m = Some y \<Longrightarrow> k \<in> set (Map_keys m)"
  using Map_get_None_iff [of k m] by auto

lemma Map_get_set_same: "Map_get k (Map_set k v m) = Some v"
  by (induction m) auto

lemma Map_get_set_other: "k' \<noteq> k \<Longrightarrow> Map_get k' (Map_set k v m) = Map_get k' m"
  by (induction m) auto

lemma Map_get_delete_other: "k' \<noteq> k \<Longrightarrow> Map_get k' (Map_delete k m) = Map_get k' m"
  by (induction m) auto

text \<open>The key order after set, in all cases.\<close>

lemma keys_BoundsCache_set:
  "Map_keys (cache (BoundsCache_set now b d c)) =
     (let ks = (if length (cache c) \<ge> maxSize c then tl (Map_keys (cache c)) else Map_keys (cache c))
      in if boundsToKey b \<in> set ks then ks else ks @ [boundsToKey b])"
  by (cases "cache c") (auto simp: BoundsCache_set_def Map_keys_set Map_keys_delete Let_def)

lemma keys_BoundsCache_get:
  "distinct (Map_keys (cache c)) \<Longrightarrow>
   Map_keys (cache (snd (BoundsCache_get b c))) =
     (if boundsToKey b \<in> set (Map_keys (cache c))
      then remove1 (boundsToKey b) (Map_keys (cache c)) @ [boundsToKey b]
      else Map_keys (cache c))"
  by (auto simp: BoundsCache_get_def Let_def Map_keys_set Map_keys_delete Map_get_None_iff
           dest: Map_get_Some_in split: option.splits)

lemma maxSize_set [simp]: "maxSize (BoundsCache_set now b d c) = maxSize c"
  by (simp add: BoundsCache_set_def Let_def)

lemma maxSize_get [simp]: "maxSize (snd (BoundsCache_get b c)) = maxSize c"
  by (simp add: BoundsCache_get_def Let_def split: option.splits)

lemma maxSize_applyOp [simp]: "maxSize (applyOp c op) = maxSize c"
  by (cases op) (simp_all add: BoundsCache_clear_def)

lemma maxSize_applyOps [simp]: "maxSize (applyOps c ops) = maxSize c"
  unfolding applyOps_def by (induction ops arbitrary: c) simp_all

lemma cacheInv_set: 
  assumes "1 \<le> maxSize c" "cacheInv c" shows "cacheInv (BoundsCache_set now b d c)"
proof -
  let ?c' = "BoundsCache_set now b d c"
  have d: "distinct (Map_keys (cache ?c'))"
    using assms by (auto simp: cacheInv_def keys_BoundsCache_set distinct_tl Let_def)
  have "length (Map_keys (cache ?c')) \<le> maxSize c"
    using assms unfolding keys_BoundsCache_set cacheInv_def Let_def
    by (cases "cache c") (auto)
  with d show ?thesis by (simp add: cacheInv_def)
qed

lemma cacheInv_get:
  assumes "cacheInv c" shows "cacheInv (snd (BoundsCache_get b c))"
proof -
  let ?c' = "snd (BoundsCache_get b c)"
  have d: "distinct (Map_keys (cache ?c'))"
    using assms by (auto simp: cacheInv_def keys_BoundsCache_get)
  have "length (Map_keys (cache ?c')) = length (Map_keys (cache c))"
    using assms unfolding cacheInv_def
    by (auto simp: keys_BoundsCache_get length_remove1 simp del: length_Map_keys)
       (metis length_Map_keys length_pos_if_in_set Suc_pred length_0_conv neq0_conv)
  with d assms show ?thesis by (simp add: cacheInv_def)
qed

lemma cacheInv_applyOp: "1 \<le> maxSize c \<Longrightarrow> cacheInv c \<Longrightarrow> cacheInv (applyOp c op)"
  by (cases op) (auto simp: cacheInv_set cacheInv_get, auto simp: cacheInv_def BoundsCache_clear_def)

lemma cacheInv_applyOps: "1 \<le> maxSize c \<Longrightarrow> cacheInv c \<Longrightarrow> cacheInv (applyOps c ops)"
  unfolding applyOps_def
  by (induction ops arbitrary: c) (simp_all add: cacheInv_applyOp)


lemma setOp_simp [simp]: "setOp (now, b, d) = OpSet now b d"
  by (simp add: setOp_def)

lemma entryKey_simp [simp]: "entryKey (now, b, d) = boundsToKey b"
  by (simp add: entryKey_def)

lemma applyOps_Nil: "applyOps c [] = c"
  by (simp add: applyOps_def)

lemma applyOps_Cons: "applyOps c (op # ops) = applyOps (applyOp c op) ops"
  by (simp add: applyOps_def)

lemma applyOps_append: "applyOps c (ops @ ops') = applyOps (applyOps c ops) ops'"
  by (simp add: applyOps_def)

lemmas applyOps_simps = applyOps_Nil applyOps_Cons applyOps_append

lemma keys_set_fresh:
  assumes "cacheInv c" "1 \<le> maxSize c" "boundsToKey b \<notin> set (Map_keys (cache c))"
  shows "Map_keys (cache (BoundsCache_set now b d c)) =
           drop (Suc (length (cache c)) - maxSize c) (Map_keys (cache c) @ [boundsToKey b])"
proof (cases "maxSize c \<le> length (cache c)")
  case True
  with assms have len: "length (cache c) = maxSize c" by (simp add: cacheInv_def)
  with assms have ne: "Map_keys (cache c) \<noteq> []" by (cases "cache c") auto
  have "boundsToKey b \<notin> set (tl (Map_keys (cache c)))"
    using assms(3) ne by (metis list.set_sel(2))
  with True len ne assms(2) show ?thesis
    by (simp add: keys_BoundsCache_set Let_def drop_Suc)
next
  case False
  with assms show ?thesis by (simp add: keys_BoundsCache_set Let_def)
qed

lemma keys_after_fresh_sets:
  assumes "cacheInv c" "1 \<le> maxSize c"
    and "distinct (map entryKey es)"
    and "set (map entryKey es) \<inter> set (Map_keys (cache c)) = {}"
  shows "Map_keys (cache (applyOps c (map setOp es))) =
           drop (length (cache c) + length es - maxSize c) (Map_keys (cache c) @ map entryKey es)"
  using assms
proof (induction es arbitrary: c)
  case Nil
  then show ?case by (simp add: cacheInv_def applyOps_simps)
next
  case (Cons e es)
  obtain now b d where e: "e = (now, b, d)" by (cases e) auto
  let ?c' = "BoundsCache_set now b d c"
  let ?k = "boundsToKey b"
  let ?ks = "Map_keys (cache c)"
  have fresh: "?k \<notin> set ?ks" using Cons.prems(4) e by auto
  have keys': "Map_keys (cache ?c') = drop (Suc (length (cache c)) - maxSize c) (?ks @ [?k])"
    using keys_set_fresh [OF Cons.prems(1,2) fresh] .
  have inv': "cacheInv ?c'" using Cons.prems(1,2) by (rule cacheInv_set[rotated])
  have len: "length (cache c) \<le> maxSize c" using Cons.prems(1) by (simp add: cacheInv_def)
  have disj: "set (map entryKey es) \<inter> set (Map_keys (cache ?c')) = {}"
  proof -
    have "set (Map_keys (cache ?c')) \<subseteq> set (?ks @ [?k])"
      unfolding keys' by (rule set_drop_subset)
    then have "set (Map_keys (cache ?c')) \<subseteq> set ?ks \<union> {?k}" by simp
    moreover have "?k \<notin> set (map entryKey es)" using Cons.prems(3) e by auto
    moreover have "set (map entryKey es) \<inter> set ?ks = {}" using Cons.prems(4) by auto
    ultimately show ?thesis by blast
  qed
  have IH: "Map_keys (cache (applyOps ?c' (map setOp es))) =
              drop (length (cache ?c') + length es - maxSize ?c') (Map_keys (cache ?c') @ map entryKey es)"
    using Cons.IH [OF inv' _ _ disj] Cons.prems(2,3) by simp
  have "length (Map_keys (cache ?c')) =
          length (drop (Suc (length (cache c)) - maxSize c) (?ks @ [?k]))"
    by (simp only: keys')
  then have len': "length (cache ?c') = Suc (length (cache c)) - (Suc (length (cache c)) - maxSize c)"
    using len Cons.prems(2) by (cases "length (cache c) < maxSize c") auto
  show ?case
  proof (cases "length (cache c) < maxSize c")
    case True
    then have "Suc (length (cache c)) - maxSize c = 0" by simp
    with True len' keys' IH show ?thesis
      unfolding e by (simp add: applyOps_simps)
  next
    case False
    with len have eq: "length (cache c) = maxSize c" by simp
    then have one: "Suc (length (cache c)) - maxSize c = 1" by simp
    have full': "length (cache ?c') = maxSize c" using len' eq Cons.prems(2) by simp
    have k1: "Map_keys (cache ?c') = drop 1 (?ks @ [?k])"
      using keys' unfolding one .
    have shift: "drop 1 (?ks @ [?k]) @ map entryKey es = drop 1 (?ks @ ?k # map entryKey es)"
      by (cases ?ks) simp_all
    have "Map_keys (cache (applyOps ?c' (map setOp es))) =
            drop (length es) (Map_keys (cache ?c') @ map entryKey es)"
      using IH full' by simp
    also have "\<dots> = drop (length es) (drop 1 (?ks @ ?k # map entryKey es))"
      unfolding k1 shift ..
    also have "\<dots> = drop (Suc (length es)) (?ks @ ?k # map entryKey es)"
      by (simp del: drop_append)
    finally show ?thesis
      unfolding e using eq by (simp add: applyOps_simps del: drop_append)
  qed
qed


lemmas digitsOf_numeral = digitsOf.simps [of "numeral k" for k]

lemma digitsOf_0: "digitsOf 0 = ''0''"
  by (simp add: digitsOf.simps)

lemma digitsOf_1: "digitsOf (Suc 0) = ''1''"
  by (simp add: digitsOf.simps)

lemma key_regionA: "boundsToKey regionA = ''48.2100,48.2000,16.3800,16.3700''"
  by (simp add: regionA_def boundsToKey_def toFixed4_def digitsOf_numeral digitsOf_0 digitsOf_1)

lemma key_regionB: "boundsToKey regionB = ''48.2200,48.2100,16.3800,16.3700''"
  by (simp add: regionB_def boundsToKey_def toFixed4_def digitsOf_numeral digitsOf_0 digitsOf_1)

lemma key_regionC: "boundsToKey regionC = ''48.2300,48.2200,16.3800,16.3700''"
  by (simp add: regionC_def boundsToKey_def toFixed4_def digitsOf_numeral digitsOf_0 digitsOf_1)

lemma cacheInv_new: "cacheInv (newBoundsCache\<lparr>maxSize := n\<rparr>)"
  by (simp add: cacheInv_def newBoundsCache_def)

lemma scenario_keys:
  assumes dist: "distinct (map entryKey (e1 # e2 # rest @ [el]))"
  shows "Map_keys (cache (applyOps (newBoundsCache\<lparr>maxSize := Suc (Suc (length rest))\<rparr>)
            (map setOp (e1 # e2 # rest) @ [OpGet (fst (snd e1)), setOp el]))) =
         map entryKey rest @ [entryKey e1, entryKey el]"
proof -
  let ?c0 = "newBoundsCache\<lparr>maxSize := Suc (Suc (length rest))\<rparr> :: 'a BoundsCache"
  let ?c1 = "applyOps ?c0 (map setOp (e1 # e2 # rest))"
  let ?c2 = "snd (BoundsCache_get (fst (snd e1)) ?c1)"
  obtain n1 b1 d1 where e1: "e1 = (n1, b1, d1)" by (cases e1) auto
  obtain nl bl dl where el: "el = (nl, bl, dl)" by (cases el) auto
  have c0: "cache ?c0 = []" "maxSize ?c0 = Suc (Suc (length rest))"
    by (simp_all add: newBoundsCache_def)
  have inv0: "cacheInv ?c0" by (rule cacheInv_new)
  have keys1: "Map_keys (cache ?c1) = entryKey e1 # entryKey e2 # map entryKey rest"
    using keys_after_fresh_sets [OF inv0, of "e1 # e2 # rest"] dist c0 by simp
  have inv1: "cacheInv ?c1" using inv0 c0 by (intro cacheInv_applyOps) simp_all
  have keys2: "Map_keys (cache ?c2) = entryKey e2 # map entryKey rest @ [entryKey e1]"
    using keys_BoundsCache_get [of ?c1 "fst (snd e1)"] inv1 keys1 dist
    by (simp add: cacheInv_def e1)
  have inv2: "cacheInv ?c2" using inv1 by (rule cacheInv_get)
  have len2: "length (cache ?c2) = Suc (Suc (length rest))"
    using arg_cong [OF keys2, of length] by simp
  have fresh: "boundsToKey bl \<notin> set (Map_keys (cache ?c2))"
    using dist unfolding keys2 el by auto
  have "Map_keys (cache (BoundsCache_set nl bl dl ?c2)) =
          drop (Suc (length (cache ?c2)) - maxSize ?c2) (Map_keys (cache ?c2) @ [boundsToKey bl])"
    using inv2 _ fresh by (rule keys_set_fresh) simp
  then have "Map_keys (cache (BoundsCache_set nl bl dl ?c2)) =
          map entryKey rest @ [entryKey e1, entryKey el]"
    unfolding keys2 len2 by (simp add: el)
  then show ?thesis by (simp add: el applyOps_simps)
qed

subsection \<open>The order of the entries is the order of last use\<close>

lemma remdups_snoc: "remdups (h @ [k]) = filter (\<lambda>x. x \<noteq> k) (remdups h) @ [k]"
  by (induction h) auto

lemma filter_tl_of_filter:
  assumes "distinct xs" "ks = filter (\<lambda>k. k \<in> set ks) xs"
  shows "filter (\<lambda>k. k \<in> set (tl ks)) xs = tl ks"
proof -
  have d: "distinct ks" using assms by (metis distinct_filter)
  have sub: "set (tl ks) \<subseteq> set ks" by (cases ks) auto
  have "filter (\<lambda>k. k \<in> set (tl ks)) xs =
          filter (\<lambda>k. k \<in> set (tl ks)) (filter (\<lambda>k. k \<in> set ks) xs)"
    using sub by (auto intro!: filter_cong)
  also have "\<dots> = filter (\<lambda>k. k \<in> set (tl ks)) ks" using assms(2) by simp
  also have "\<dots> = tl ks" using d by (cases ks) (auto simp: filter_id_conv)
  finally show ?thesis .
qed


lemma byLastUse_fresh:
  assumes inv: "ks = byLastUse ks h" and d: "distinct ks" and fresh: "k \<notin> set ks"
    and ks': "ks' = ks \<or> ks' = tl ks"
  shows "ks' @ [k] = byLastUse (ks' @ [k]) (h @ [k])"
proof -
  have sub: "set ks' \<subseteq> set ks" using ks' by (cases ks) auto
  have k': "k \<notin> set ks'" using sub fresh by auto
  have ks'_eq: "filter (\<lambda>x. x \<in> set ks') (remdups h) = ks'"
    using ks'
  proof
    assume "ks' = ks" then show ?thesis using inv by (simp add: byLastUse_def)
  next
    assume "ks' = tl ks"
    then show ?thesis
      using filter_tl_of_filter [of "remdups h" ks] inv by (simp add: byLastUse_def)
  qed
  have "filter (\<lambda>x. x \<in> set (ks' @ [k])) (filter (\<lambda>x. x \<noteq> k) (remdups h)) =
          filter (\<lambda>x. x \<in> set ks') (remdups h)"
    using k' by (auto intro!: filter_cong)
  then show ?thesis
    by (simp add: byLastUse_def remdups_snoc ks'_eq)
qed

lemma byLastUse_hit:
  assumes inv: "ks = byLastUse ks h" and d: "distinct ks" and hit: "k \<in> set ks"
  shows "remove1 k ks @ [k] = byLastUse (remove1 k ks @ [k]) (h @ [k])"
proof -
  have "filter (\<lambda>x. x \<in> set (remove1 k ks @ [k])) (filter (\<lambda>x. x \<noteq> k) (remdups h)) =
          filter (\<lambda>x. x \<noteq> k) (filter (\<lambda>x. x \<in> set ks) (remdups h))"
    using d by (auto intro!: filter_cong)
  also have "\<dots> = filter (\<lambda>x. x \<noteq> k) ks"
    using inv by (simp add: byLastUse_def)
  also have "\<dots> = remove1 k ks"
    using d by (simp add: distinct_remove1_removeAll removeAll_filter_not_eq) (metis)
  finally show ?thesis
    using hit by (simp add: byLastUse_def remdups_snoc)
qed


lemma keys_byLastUse:
  assumes "cacheInv c" "1 \<le> maxSize c"
    and "Map_keys (cache c) = byLastUse (Map_keys (cache c)) h"
    and "insertsOnly c ops"
  shows "Map_keys (cache (applyOps c ops)) =
           byLastUse (Map_keys (cache (applyOps c ops))) (h @ usesOf c ops)"
  using assms
proof (induction ops arbitrary: c h)
  case Nil
  then show ?case by (simp add: applyOps_simps)
next
  case (Cons op ops)
  have d: "distinct (Map_keys (cache c))" using Cons.prems(1) by (simp add: cacheInv_def)
  show ?case
  proof (cases op)
    case (OpSet now b x)
    let ?c' = "BoundsCache_set now b x c"
    let ?k = "boundsToKey b"
    let ?ks1 = "if maxSize c \<le> length (cache c) then tl (Map_keys (cache c)) else Map_keys (cache c)"
    have fresh: "?k \<notin> set (Map_keys (cache c))" and rest: "insertsOnly ?c' ops"
      using Cons.prems(4) OpSet by simp_all
    have "set ?ks1 \<subseteq> set (Map_keys (cache c))" by (cases "Map_keys (cache c)") auto
    with fresh have "?k \<notin> set ?ks1" by blast
    then have keys': "Map_keys (cache ?c') = ?ks1 @ [?k]"
      by (simp add: keys_BoundsCache_set Let_def)
    have "?ks1 @ [?k] = byLastUse (?ks1 @ [?k]) (h @ [?k])"
      using Cons.prems(3) d fresh by (rule byLastUse_fresh) auto
    then have inv': "Map_keys (cache ?c') = byLastUse (Map_keys (cache ?c')) (h @ [?k])"
      unfolding keys' .
    have "Map_keys (cache (applyOps ?c' ops)) =
            byLastUse (Map_keys (cache (applyOps ?c' ops))) ((h @ [?k]) @ usesOf ?c' ops)"
      using cacheInv_set [OF Cons.prems(2,1)] Cons.prems(2) inv' rest
      by (intro Cons.IH) simp_all
    then show ?thesis by (simp add: OpSet applyOps_simps)
  next
    case (OpGet b)
    let ?c' = "snd (BoundsCache_get b c)"
    let ?k = "boundsToKey b"
    have rest: "insertsOnly ?c' ops" using Cons.prems(4) OpGet by simp
    have inv': "Map_keys (cache ?c') = byLastUse (Map_keys (cache ?c'))
                  (h @ (if ?k \<in> set (Map_keys (cache c)) then [?k] else []))"
    proof (cases "?k \<in> set (Map_keys (cache c))")
      case True
      have "remove1 ?k (Map_keys (cache c)) @ [?k] =
              byLastUse (remove1 ?k (Map_keys (cache c)) @ [?k]) (h @ [?k])"
        using Cons.prems(3) d True by (rule byLastUse_hit)
      with True d show ?thesis by (simp add: keys_BoundsCache_get)
    next
      case False
      with d Cons.prems(3) show ?thesis by (simp add: keys_BoundsCache_get)
    qed
    have "Map_keys (cache (applyOps ?c' ops)) =
            byLastUse (Map_keys (cache (applyOps ?c' ops)))
              ((h @ (if ?k \<in> set (Map_keys (cache c)) then [?k] else [])) @ usesOf ?c' ops)"
      using cacheInv_get [OF Cons.prems(1)] Cons.prems(2) inv' rest
      by (intro Cons.IH) simp_all
    then show ?thesis by (simp add: OpGet applyOps_simps)
  next
    case (OpFindOverlapping b)
    then show ?thesis using Cons by (simp add: applyOps_simps)
  next
    case OpClear
    have "Map_keys (cache (applyOps (BoundsCache_clear c) ops)) =
            byLastUse (Map_keys (cache (applyOps (BoundsCache_clear c) ops)))
              (h @ usesOf (BoundsCache_clear c) ops)"
      using Cons.prems OpClear
      by (intro Cons.IH) (simp_all add: cacheInv_def BoundsCache_clear_def byLastUse_def)
    then show ?thesis by (simp add: OpClear applyOps_simps)
  next
    case OpSize
    then show ?thesis using Cons by (simp add: applyOps_simps)
  qed
qed

subsection \<open>Capacity and eviction order\<close>

lemma size_applyOps_le:
  "cacheInv c \<Longrightarrow> 1 \<le> maxSize c \<Longrightarrow> BoundsCache_size (applyOps c ops) \<le> maxSize c"
  using cacheInv_applyOps [of c ops] by (simp add: cacheInv_def BoundsCache_size_def)

lemma keys_set_absent_full:
  assumes "maxSize c \<le> length (cache c)" "boundsToKey b \<notin> set (Map_keys (cache c))"
  shows "Map_keys (cache (BoundsCache_set now b d c)) = tl (Map_keys (cache c)) @ [boundsToKey b]"
proof -
  have "boundsToKey b \<notin> set (tl (Map_keys (cache c)))"
    using assms(2) by (cases "Map_keys (cache c)") auto
  with assms(1) show ?thesis by (simp add: keys_BoundsCache_set)
qed

lemma keys_set_absent_room:
  assumes "length (cache c) < maxSize c" "boundsToKey b \<notin> set (Map_keys (cache c))"
  shows "Map_keys (cache (BoundsCache_set now b d c)) = Map_keys (cache c) @ [boundsToKey b]"
  using assms by (simp add: keys_BoundsCache_set)

text \<open>
  A cache that starts empty never holds more than 50 entries, whatever calls are made
  on it.
\<close>

lemma BoundsCache_size_le_50:
  "BoundsCache_size (applyOps (newBoundsCache :: 'd BoundsCache) ops) \<le> 50"
proof -
  have "cacheInv (newBoundsCache :: 'd BoundsCache)"
    "maxSize (newBoundsCache :: 'd BoundsCache) = 50"
    by (simp_all add: cacheInv_def newBoundsCache_def)
  with size_applyOps_le [of "newBoundsCache :: 'd BoundsCache" ops] show ?thesis by simp
qed

text \<open>
  As long as every insertion is of a signature that is not in the cache, the entries
  stand in the order of their last use (insertion or successful \<open>get\<close>), so that the
  first entry, the one an insertion into the full cache evicts, is the least recently
  used.
\<close>

lemma keys_byLastUse_new:
  assumes "insertsOnly (newBoundsCache :: 'd BoundsCache) ops"
  shows "Map_keys (cache (applyOps (newBoundsCache :: 'd BoundsCache) ops)) =
           byLastUse (Map_keys (cache (applyOps (newBoundsCache :: 'd BoundsCache) ops)))
             (usesOf (newBoundsCache :: 'd BoundsCache) ops)"
proof -
  have new: "cacheInv (newBoundsCache :: 'd BoundsCache)"
            "maxSize (newBoundsCache :: 'd BoundsCache) = 50"
    by (simp_all add: cacheInv_def newBoundsCache_def)
  with assms have "Map_keys (cache (applyOps (newBoundsCache :: 'd BoundsCache) ops)) =
      byLastUse (Map_keys (cache (applyOps (newBoundsCache :: 'd BoundsCache) ops)))
        ([] @ usesOf (newBoundsCache :: 'd BoundsCache) ops)"
    by (intro keys_byLastUse) (simp_all add: newBoundsCache_def byLastUse_def)
  then show ?thesis by simp
qed

subsection \<open>Re-inserting a signature that is in the cache\<close>

lemma keys_set_present_room:
  assumes "length (cache c) < maxSize c" "boundsToKey b \<in> set (Map_keys (cache c))"
  shows "Map_keys (cache (BoundsCache_set now b d c)) = Map_keys (cache c)"
  using assms by (simp add: keys_BoundsCache_set)

lemma get_after_set:
  "fst (BoundsCache_get b (BoundsCache_set now b d c)) = Some d"
  by (simp add: BoundsCache_get_def BoundsCache_set_def Let_def Map_get_set_same)

text \<open>
  What follows from the kept position: in a cache of capacity \<open>N\<close> (at least three), two
  entries are inserted, the first is inserted again with new data, and \<open>N - 1\<close> further
  signatures are inserted. The one insertion over capacity evicts the first entry,
  although it was written after the second.
\<close>

lemma reinserted_entry_is_evicted_first:
  fixes eA :: "nat \<times> MapBounds \<times> 'd"
  assumes dist: "distinct (map entryKey (eA # eB # rest))" and len: "2 \<le> length rest"
  shows "Map_keys (cache (applyOps (newBoundsCache\<lparr>maxSize := Suc (length rest)\<rparr>)
           (setOp eA # setOp eB # OpSet now (fst (snd eA)) d2 # map setOp rest))) =
         entryKey eB # map entryKey rest"
proof -
  let ?c0 = "newBoundsCache\<lparr>maxSize := Suc (length rest)\<rparr> :: 'd BoundsCache"
  let ?c1 = "applyOps ?c0 (map setOp [eA, eB])"
  let ?c2 = "BoundsCache_set now (fst (snd eA)) d2 ?c1"
  obtain nA bA dA where eA: "eA = (nA, bA, dA)" by (cases eA) auto
  have c0: "cache ?c0 = []" "maxSize ?c0 = Suc (length rest)"
    by (simp_all add: newBoundsCache_def)
  have inv0: "cacheInv ?c0" by (rule cacheInv_new)
  have keys1: "Map_keys (cache ?c1) = [entryKey eA, entryKey eB]"
    using keys_after_fresh_sets [OF inv0, of "[eA, eB]"] dist c0 len by simp
  have inv1: "cacheInv ?c1" using inv0 c0 by (intro cacheInv_applyOps) simp_all
  have len1: "length (cache ?c1) = 2"
    using arg_cong [OF keys1, of length] by simp
  have keys2: "Map_keys (cache ?c2) = [entryKey eA, entryKey eB]"
    using keys_set_present_room [of ?c1 "fst (snd eA)" now d2] keys1 len1 len
    by (simp add: eA)
  have inv2: "cacheInv ?c2" using inv1 by (intro cacheInv_set) simp_all
  have len2: "length (cache ?c2) = 2"
    using arg_cong [OF keys2, of length] by simp
  have disj: "set (map entryKey rest) \<inter> set (Map_keys (cache ?c2)) = {}"
    unfolding keys2 using dist by auto
  have "Map_keys (cache (applyOps ?c2 (map setOp rest))) =
          drop (length (cache ?c2) + length rest - maxSize ?c2)
            (Map_keys (cache ?c2) @ map entryKey rest)"
    using dist disj by (intro keys_after_fresh_sets [OF inv2]) simp_all
  then have "Map_keys (cache (applyOps ?c2 (map setOp rest))) = entryKey eB # map entryKey rest"
    unfolding keys2 len2 by simp
  then show ?thesis by (simp add: applyOps_simps eA)
qed

text \<open>
  C3, at a concrete input. Region A is cached, then region B, then A again with new
  data. The data of A is the new data, but the order of the entries is still A, B: the
  entry of A stays first, so it is the next one to be evicted, before B.
\<close>

theorem BoundsCache_set_again_keeps_position:
  "Map_keys (cache (applyOps newBoundsCache
      [OpSet 0 regionA (7::nat), OpSet 1 regionB 8, OpSet 2 regionA 9])) =
     [boundsToKey regionA, boundsToKey regionB] \<and>
   fst (BoundsCache_get regionA (applyOps newBoundsCache
      [OpSet 0 regionA (7::nat), OpSet 1 regionB 8, OpSet 2 regionA 9])) = Some 9 \<and>
   boundsToKey regionA \<noteq> boundsToKey regionB"
proof -
  let ?c1 = "applyOps newBoundsCache (map setOp [(0, regionA, 7::nat), (1, regionB, 8)])"
  have new: "cacheInv (newBoundsCache :: nat BoundsCache)"
    "maxSize (newBoundsCache :: nat BoundsCache) = 50" "cache (newBoundsCache :: nat BoundsCache) = []"
    by (simp_all add: cacheInv_def newBoundsCache_def)
  have ne: "boundsToKey regionA \<noteq> boundsToKey regionB"
    by (simp add: key_regionA key_regionB)
  have keys1: "Map_keys (cache ?c1) = [boundsToKey regionA, boundsToKey regionB]"
    using keys_after_fresh_sets [OF new(1), of "[(0, regionA, 7), (1, regionB, 8)]"] new ne
    by simp
  have len1: "length (cache ?c1) = 2"
    using arg_cong [OF keys1, of length] by simp
  have "Map_keys (cache (BoundsCache_set 2 regionA 9 ?c1)) = Map_keys (cache ?c1)"
    using keys1 len1 new(2) by (intro keys_set_present_room) simp_all
  with keys1 ne show ?thesis
    by (simp add: applyOps_simps get_after_set)
qed


subsection \<open>Eviction after a re-insertion\<close>

lemma toFixed4_real: "toFixed4 (real n) = digitsOf n @ ''.0000''"
proof -
  have "nat \<lfloor>\<bar>real n\<bar> * 10000 + 1 / 2\<rfloor> = n * 10000"
    by linarith
  then show ?thesis
    by (simp add: toFixed4_def Let_def digitsOf_0 numeral_3_eq_3)
qed

lemma key_tile: "boundsToKey (tile n) = digitsOf n @ ''.0000,0.0000,1.0000,0.0000''"
  using toFixed4_real [of 0] toFixed4_real [of 1]
  by (simp add: boundsToKey_def tile_def toFixed4_real digitsOf_0 digitsOf_1)

lemma key_tile_inj: "boundsToKey (tile m) = boundsToKey (tile n) \<longleftrightarrow> m = n"
  by (auto simp: key_tile dest: digitsOf_inj)

lemma inj_key_tile: "inj (boundsToKey \<circ> tile)"
  by (rule injI) (simp add: key_tile_inj)


lemma distinct_tiles: "distinct ns \<Longrightarrow> distinct (map (boundsToKey \<circ> tile) ns)"
  by (simp add: distinct_map inj_on_def key_tile_inj)

lemma usesOf_sets: "usesOf c (map setOp es) = map entryKey es"
proof (induction es arbitrary: c)
  case Nil
  show ?case by simp
next
  case (Cons e es)
  then show ?case by (cases e) simp
qed

lemma keys_after_reinsertion:
  fixes eA :: "nat \<times> MapBounds \<times> 'd"
  assumes dist: "distinct (map entryKey (eA # eB # rest))" and cap: "3 \<le> maxSize c"
    and empty: "cache c = []"
  shows "Map_keys (cache (applyOps c
           (setOp eA # setOp eB # OpSet now (fst (snd eA)) d2 # map setOp rest))) =
         drop (2 + length rest - maxSize c) (entryKey eA # entryKey eB # map entryKey rest)"
proof -
  let ?c1 = "applyOps c (map setOp [eA, eB])"
  let ?c2 = "BoundsCache_set now (fst (snd eA)) d2 ?c1"
  obtain nA bA dA where eA: "eA = (nA, bA, dA)" by (cases eA) auto
  have inv0: "cacheInv c" using empty by (simp add: cacheInv_def)
  have keys1: "Map_keys (cache ?c1) = [entryKey eA, entryKey eB]"
    using keys_after_fresh_sets [OF inv0, of "[eA, eB]"] dist cap empty by simp
  have inv1: "cacheInv ?c1" using inv0 cap by (intro cacheInv_applyOps) simp_all
  have len1: "length (cache ?c1) = 2"
    using arg_cong [OF keys1, of length] by simp
  have keys2: "Map_keys (cache ?c2) = [entryKey eA, entryKey eB]"
    using keys_set_present_room [of ?c1 "fst (snd eA)" now d2] keys1 len1 cap
    by (simp add: eA)
  have inv2: "cacheInv ?c2" using inv1 cap by (intro cacheInv_set) simp_all
  have len2: "length (cache ?c2) = 2"
    using arg_cong [OF keys2, of length] by simp
  have disj: "set (map entryKey rest) \<inter> set (Map_keys (cache ?c2)) = {}"
    unfolding keys2 using dist by auto
  have "Map_keys (cache (applyOps ?c2 (map setOp rest))) =
          drop (length (cache ?c2) + length rest - maxSize ?c2)
            (Map_keys (cache ?c2) @ map entryKey rest)"
    using dist disj cap by (intro keys_after_fresh_sets [OF inv2]) simp_all
  then have "Map_keys (cache (applyOps ?c2 (map setOp rest))) =
      drop (2 + length rest - maxSize c) (entryKey eA # entryKey eB # map entryKey rest)"
    unfolding keys2 len2 by simp
  then show ?thesis by (simp add: applyOps_simps eA)
qed

lemma fillers_facts:
  shows "distinct fillers" and "length fillers = 48" and "1 \<notin> set fillers"
    and "2 \<notin> set fillers" and "51 \<notin> set fillers"
  by (simp_all add: fillers_def del: upt_rec_numeral)

lemma fillers_snoc: "[3..<52] = fillers @ [51]"
proof -
  have "[3..<Suc 51] = [3..<51] @ [51]" by (rule upt_Suc_append) simp
  moreover have "Suc 51 = 52" by simp
  ultimately show ?thesis by (simp only: fillers_def)
qed

lemma entryKey_tile [simp]: "entryKey (tileEntry n) = boundsToKey (tile n)"
  by (simp add: tileEntry_def)

lemma setOp_tile [simp]: "setOp (tileEntry n) = OpSet n (tile n) n"
  by (simp add: tileEntry_def)

lemma fullHistory_eq:
  "fullHistory = setOp (0, tile 1, 1) # setOp (1, tile 2, 2) #
     OpSet 2 (fst (snd (0 :: nat, tile 1, 1 :: nat))) 100 # map setOp (map tileEntry fillers)"
  by (simp add: fullHistory_def tileEntry_def fillers_def del: upt_rec_numeral One_nat_def)

lemma distinct_tileEntries:
  "distinct (map entryKey ((0, tile 1, 1) # (1, tile 2, 2) # map tileEntry (fillers @ [51])))"
proof -
  have "distinct (1 # 2 # fillers @ [51 :: nat])"
    using fillers_facts by simp
  from distinct_tiles [OF this] show ?thesis
    by (simp add: comp_def del: One_nat_def)
qed

lemma keys_fullHistory:
  "Map_keys (cache (applyOps newBoundsCache fullHistory)) =
     boundsToKey (tile 1) # boundsToKey (tile 2) # map (boundsToKey \<circ> tile) fillers"
proof -
  have d: "distinct (map entryKey ((0, tile 1, 1) # (1, tile 2, 2) # map tileEntry fillers))"
    using distinct_tileEntries by simp
  have "Map_keys (cache (applyOps (newBoundsCache :: nat BoundsCache) fullHistory)) =
      drop (2 + length (map tileEntry fillers) - maxSize (newBoundsCache :: nat BoundsCache))
        (entryKey (0 :: nat, tile 1, 1 :: nat) # entryKey (1 :: nat, tile 2, 2 :: nat) # map entryKey (map tileEntry fillers))"
    unfolding fullHistory_eq
    by (rule keys_after_reinsertion [OF d]) (simp_all add: newBoundsCache_def)
  then show ?thesis
    by (simp add: newBoundsCache_def fillers_facts comp_def del: One_nat_def)
qed

lemma keys_after_overflow:
  "Map_keys (cache (BoundsCache_set 51 (tile 51) 51 (applyOps newBoundsCache fullHistory))) =
     boundsToKey (tile 2) # map (boundsToKey \<circ> tile) (fillers @ [51])"
proof -
  have d: "distinct (map entryKey ((0, tile 1, 1) # (1, tile 2, 2) # map tileEntry (fillers @ [51])))"
    by (rule distinct_tileEntries)
  have "Map_keys (cache (applyOps (newBoundsCache :: nat BoundsCache)
     (setOp (0, tile 1, 1) # setOp (1, tile 2, 2) #
       OpSet 2 (fst (snd (0 :: nat, tile 1, 1 :: nat))) 100 # map setOp (map tileEntry (fillers @ [51]))))) =
      drop (2 + length (map tileEntry (fillers @ [51])) - maxSize (newBoundsCache :: nat BoundsCache))
        (entryKey (0 :: nat, tile 1, 1 :: nat) # entryKey (1 :: nat, tile 2, 2 :: nat) #
           map entryKey (map tileEntry (fillers @ [51])))"
    by (rule keys_after_reinsertion [OF d]) (simp_all add: newBoundsCache_def)
  moreover have "applyOps (newBoundsCache :: nat BoundsCache)
     (setOp (0, tile 1, 1) # setOp (1, tile 2, 2) #
       OpSet 2 (fst (snd (0 :: nat, tile 1, 1 :: nat))) 100 # map setOp (map tileEntry (fillers @ [51]))) =
     BoundsCache_set 51 (tile 51) 51 (applyOps newBoundsCache fullHistory)"
    unfolding fullHistory_eq
    by (simp add: applyOps_simps tileEntry_def del: One_nat_def)
  ultimately show ?thesis
    by (simp add: newBoundsCache_def fillers_facts comp_def del: One_nat_def)
qed

lemma uses_fullHistory:
  "usesOf newBoundsCache fullHistory =
     boundsToKey (tile 1) # boundsToKey (tile 2) # boundsToKey (tile 1) #
     map (boundsToKey \<circ> tile) fillers"
proof -
  have "usesOf c (map setOp (map tileEntry fillers)) = map entryKey (map tileEntry fillers)"
    for c :: "nat BoundsCache"
    by (rule usesOf_sets)
  then show ?thesis
    unfolding fullHistory_eq by (simp add: tileEntry_def comp_def del: One_nat_def)
qed

lemma byLastUse_fullHistory:
  "byLastUse (Map_keys (cache (applyOps newBoundsCache fullHistory)))
     (usesOf newBoundsCache fullHistory) =
   boundsToKey (tile 2) # boundsToKey (tile 1) # map (boundsToKey \<circ> tile) fillers"
proof -
  have d: "distinct (map (boundsToKey \<circ> tile) (1 # 2 # fillers))"
    by (rule distinct_tiles) (use fillers_facts in simp)
  then have r: "remdups (map (boundsToKey \<circ> tile) fillers) = map (boundsToKey \<circ> tile) fillers"
    by simp
  show ?thesis
    unfolding keys_fullHistory uses_fullHistory byLastUse_def
    using d r by (auto simp del: One_nat_def intro: filter_True)
qed

text \<open>
  C4, at a concrete input. The cache of capacity 50 is filled by caching tile 1, tile
  2, tile 1 again and the tiles 3 to 50. It then holds 50 entries, in the order tile 1,
  tile 2, tile 3, ..., tile 50, while the order of last use is tile 2, tile 1, tile 3,
  ..., tile 50: the least recently used entry is tile 2. Caching tile 51 evicts tile 1
  and keeps tile 2.
\<close>

theorem BoundsCache_evicts_entry_used_after_another:
  "BoundsCache_size (applyOps newBoundsCache fullHistory) = 50 \<and>
   Map_keys (cache (applyOps newBoundsCache fullHistory)) =
     boundsToKey (tile 1) # boundsToKey (tile 2) # map (boundsToKey \<circ> tile) [3..<51] \<and>
   byLastUse (Map_keys (cache (applyOps newBoundsCache fullHistory)))
       (usesOf newBoundsCache fullHistory) =
     boundsToKey (tile 2) # boundsToKey (tile 1) # map (boundsToKey \<circ> tile) [3..<51] \<and>
   Map_keys (cache (BoundsCache_set 51 (tile 51) 51 (applyOps newBoundsCache fullHistory))) =
     boundsToKey (tile 2) # map (boundsToKey \<circ> tile) [3..<52] \<and>
   boundsToKey (tile 1) \<notin> set (boundsToKey (tile 2) # map (boundsToKey \<circ> tile) [3..<52])"
proof -
  have "length (Map_keys (cache (applyOps newBoundsCache fullHistory))) = 50"
    unfolding keys_fullHistory by (simp add: fillers_facts)
  then have size: "BoundsCache_size (applyOps newBoundsCache fullHistory) = 50"
    by (simp add: BoundsCache_size_def)
  have gone: "boundsToKey (tile 1) \<notin>
      set (boundsToKey (tile 2) # map (boundsToKey \<circ> tile) (fillers @ [51]))"
    using fillers_facts by (auto simp: key_tile_inj simp del: One_nat_def)
  show ?thesis
    unfolding fillers_snoc fillers_def [symmetric]
    using size keys_fullHistory byLastUse_fullHistory keys_after_overflow gone
    by (intro conjI)
qed

section \<open>Properties of the geometry converter\<close>

lemma convertElement_Some:
  assumes "convertElement el = Some f"
  shows "\<exists>g t coords. geometry el = Some g \<and> tags el = Some t \<and>
           extractCoords el g = Some coords \<and> 4 \<le> length coords \<and>
           \<not> list_ex invalidCoord coords \<and> length (closeRing coords) \<le> 100 \<and>
           f = makeBuilding t (closeRing coords)"
  using assms
  by (auto simp: convertElement_def split: option.splits if_splits)

lemma convertElements_sound:
  "convertElements es acc = Inr fs \<Longrightarrow> f \<in> set fs \<Longrightarrow>
     f \<in> set acc \<or> (\<exists>el. Some el \<in> set es \<and> convertElement el = Some f)"
proof (induction es acc rule: convertElements.induct)
  case (1 validBuildings)
  then show ?case by simp
next
  case (2 es validBuildings)
  then show ?case by simp
next
  case (3 el es validBuildings)
  then show ?case by (cases "convertElement el") auto
qed

lemma converted_from_element:
  assumes "convertOSMToGeoJSON d = Inr fs" "f \<in> set fs"
  shows "\<exists>el. convertElement el = Some f"
  using assms convertElements_sound [of _ "[]" fs f]
  by (auto simp: convertOSMToGeoJSON_def split: option.splits)

lemma valid_point:
  "\<not> invalidCoord p \<longleftrightarrow> (\<exists>x y. p = [x, y] \<and> 16 \<le> x \<and> x \<le> 17 \<and> 48 \<le> y \<and> y \<le> 48.5)"
proof
  assume v: "\<not> invalidCoord p"
  then have "length p = 2" by (simp add: invalidCoord_def)
  then obtain x y where "p = [x, y]"
    by (cases p; cases "tl p") auto
  with v show "\<exists>x y. p = [x, y] \<and> 16 \<le> x \<and> x \<le> 17 \<and> 48 \<le> y \<and> y \<le> 48.5"
    by (auto simp: invalidCoord_def)
qed (auto simp: invalidCoord_def)

lemma closeRing_closed:
  assumes "coords \<noteq> []" "\<not> list_ex invalidCoord coords"
  shows "hd (closeRing coords) = last (closeRing coords)"
proof -
  have "\<not> invalidCoord (hd coords)" "\<not> invalidCoord (last coords)"
    using assms by (auto simp: list_ex_iff)
  then obtain x y x' y' where "hd coords = [x, y]" "last coords = [x', y']"
    unfolding valid_point by blast
  with assms(1) show ?thesis
    by (auto simp: closeRing_def Let_def)
qed

lemma closeRing_valid:
  assumes "coords \<noteq> []" "\<not> list_ex invalidCoord coords"
  shows "\<not> list_ex invalidCoord (closeRing coords)"
proof -
  have v: "\<not> invalidCoord (hd coords)"
    using assms by (auto simp: list_ex_iff)
  then obtain x y where xy: "hd coords = [x, y]"
    unfolding valid_point by blast
  with v have "\<not> invalidCoord [x, y]" by simp
  with assms xy show ?thesis
    by (auto simp: closeRing_def Let_def list_ex_iff)
qed

lemma length_closeRing: "length coords \<le> length (closeRing coords)"
  by (simp add: closeRing_def Let_def)


lemma accepted_ring:
  assumes "convertElement el = Some f"
  shows "\<exists>coords. coordinates f = [closeRing coords] \<and> 4 \<le> length coords \<and>
           length (closeRing coords) \<le> 100 \<and>
           hd (closeRing coords) = last (closeRing coords) \<and>
           \<not> list_ex invalidCoord (closeRing coords)"
proof -
  from convertElement_Some [OF assms] obtain g t coords where
    c: "4 \<le> length coords" "\<not> list_ex invalidCoord coords"
       "length (closeRing coords) \<le> 100" "f = makeBuilding t (closeRing coords)"
    by blast
  from c(1) have ne: "coords \<noteq> []" by auto
  show ?thesis
    using c closeRing_closed [OF ne c(2)] closeRing_valid [OF ne c(2)]
    by (auto simp: makeBuilding_def)
qed

lemma nodeAt_simp [simp]: "nodeAt (x, y) = Some \<lparr>lon = Some x, lat = Some y\<rparr>"
  by (simp add: nodeAt_def)

lemma pointOf_simp [simp]: "pointOf (x, y) = [x, y]"
  by (simp add: pointOf_def)

lemma nodesToCoords_nodeAt: "nodesToCoords (map nodeAt pts) = map pointOf pts"
  by (induction pts) auto

lemma invalidCoord_pointOf: "invalidCoord (pointOf p) = (\<not> inBox p)"
  by (cases p) (auto simp: invalidCoord_def inBox_def)

lemma closeRing_pointOf:
  assumes "pts \<noteq> []"
  shows "closeRing (map pointOf pts) =
           (if hd pts = last pts then map pointOf pts else map pointOf pts @ [pointOf (hd pts)])"
proof -
  obtain x y where h: "hd pts = (x, y)" by (cases "hd pts") auto
  obtain x' y' where l: "last pts = (x', y')" by (cases "last pts") auto
  show ?thesis
    using assms h l by (auto simp: closeRing_def Let_def hd_map last_map)
qed

lemma hasStructureTag_graben: "hasStructureTag grabenTags"
  by (simp add: hasStructureTag_def grabenTags_def truthy_def)

lemma makeBuilding_graben: "makeBuilding grabenTags ring = \<lparr>props = grabenProps, coordinates = [ring]\<rparr>"
  by (simp add: makeBuilding_def grabenTags_def grabenProps_def truthy_def orElse_def render_def
        getBuildingType_def)

lemma convert_graben_way:
  assumes "length pts = 5" "list_all inBox pts"
  shows "convertElement (wayOf grabenTags pts) =
     Some \<lparr>props = grabenProps,
           coordinates = [if hd pts = last pts then map pointOf pts
                          else map pointOf pts @ [pointOf (hd pts)]]\<rparr>"
proof -
  from assms(1) have ne: "pts \<noteq> []" by auto
  have valid: "\<not> list_ex invalidCoord (map pointOf pts)"
    using assms(2) by (simp add: list_ex_iff list_all_iff invalidCoord_pointOf)
  show ?thesis
    using assms(1) valid
    by (simp add: convertElement_def wayOf_def extractCoords_def nodesToCoords_nodeAt
          hasStructureTag_graben closeRing_pointOf [OF ne] makeBuilding_graben)
qed

lemma fiveNodes_facts:
  "length fiveNodes = 5" "list_all inBox fiveNodes" "hd fiveNodes \<noteq> last fiveNodes"
  by (simp_all add: fiveNodes_def inBox_def)

lemma closedFive_facts:
  "length closedFive = 5" "list_all inBox closedFive" "hd closedFive = last closedFive"
  by (simp_all add: closedFive_def inBox_def)

lemma convert_single:
  "convertElement el = Some f \<Longrightarrow> convertOSMToGeoJSON (Some [Some el]) = Inr [f]"
  "convertElement el = None \<Longrightarrow> convertOSMToGeoJSON (Some [Some el]) = Inr []"
  by (simp_all add: convertOSMToGeoJSON_def)

lemma convert_grabenPayload: "convertOSMToGeoJSON grabenPayload = Inr [grabenFeature]"
  unfolding grabenPayload_def grabenFeature_def
  using convert_graben_way [OF fiveNodes_facts(1,2)] fiveNodes_facts(3)
  by (intro convert_single) simp

lemma converted_from_payload:
  assumes "convertOSMToGeoJSON d = Inr fs" "f \<in> set fs"
  shows "\<exists>es el. d = Some es \<and> Some el \<in> set es \<and> convertElement el = Some f"
  using assms convertElements_sound [of _ "[]" fs f]
  by (auto simp: convertOSMToGeoJSON_def split: option.splits)

lemma convertElement_rejects:
  assumes "geometry el = Some g" "extractCoords el g = Some coords"
    and "length coords < 4 \<or> list_ex invalidCoord coords \<or> 100 < length (closeRing coords)"
  shows "convertElement el = None"
  using assms by (auto simp: convertElement_def split: option.splits)

subsection \<open>Accepted rings\<close>

text \<open>
  C7. For every payload the converter returns for, every feature has exactly one ring;
  the ring has at least 4 and at most 100 points; its first point equals its last; each
  point is a pair of a longitude from 16 to 17 and a latitude from 48 to 48.5; and the
  ring is the closing of all the coordinates read from an element of the payload, of
  which there were at least 4. An element is rejected, and adds nothing to the output,
  when fewer than 4 coordinates were read, when one of them is outside the box, or when
  the closed ring has more than 100 points: nothing is cut to size.
\<close>

theorem converter_accepts_only_valid_closed_rings:
  "(convertOSMToGeoJSON d = Inr fs \<and> f \<in> set fs \<longrightarrow>
      (\<exists>ring. coordinates f = [ring] \<and>
         4 \<le> length ring \<and> length ring \<le> 100 \<and> hd ring = last ring \<and>
         (\<forall>p \<in> set ring. \<exists>x y. p = [x, y] \<and> inBox (x, y)) \<and>
         (\<exists>es el g coords. d = Some es \<and> Some el \<in> set es \<and> geometry el = Some g \<and>
            extractCoords el g = Some coords \<and> 4 \<le> length coords \<and>
            ring = closeRing coords))) \<and>
   (geometry el = Some g \<and> extractCoords el g = Some coords \<and>
      (length coords < 4 \<or> list_ex invalidCoord coords \<or> 100 < length (closeRing coords))
      \<longrightarrow> convertElement el = None \<and> convertOSMToGeoJSON (Some [Some el]) = Inr [])"
proof -
  have accepted: "\<exists>ring. coordinates f = [ring] \<and>
         4 \<le> length ring \<and> length ring \<le> 100 \<and> hd ring = last ring \<and>
         (\<forall>p \<in> set ring. \<exists>x y. p = [x, y] \<and> inBox (x, y)) \<and>
         (\<exists>es el g coords. d = Some es \<and> Some el \<in> set es \<and> geometry el = Some g \<and>
            extractCoords el g = Some coords \<and> 4 \<le> length coords \<and>
            ring = closeRing coords)"
    if conv: "convertOSMToGeoJSON d = Inr fs" and mem: "f \<in> set fs"
  proof -
    from converted_from_payload [OF conv mem] obtain es el' where
      el': "d = Some es" "Some el' \<in> set es" "convertElement el' = Some f"
      by blast
    from convertElement_Some [OF el'(3)] obtain g' t coords where
      c: "geometry el' = Some g'" "extractCoords el' g' = Some coords" "4 \<le> length coords"
         "\<not> list_ex invalidCoord coords" "length (closeRing coords) \<le> 100"
         "f = makeBuilding t (closeRing coords)"
      by blast
    from c(3) have ne: "coords \<noteq> []" by auto
    have ring: "coordinates f = [closeRing coords]"
      using c(6) by (simp add: makeBuilding_def)
    have len: "4 \<le> length (closeRing coords)"
      using c(3) length_closeRing [of coords] by simp
    have box: "\<forall>p \<in> set (closeRing coords). \<exists>x y. p = [x, y] \<and> inBox (x, y)"
      using closeRing_valid [OF ne c(4)] by (simp add: list_ex_iff valid_point inBox_def)
    show ?thesis
      using ring len c(5) closeRing_closed [OF ne c(4)] box el'(1,2) c(1,2,3) by blast
  qed
  have rejected: "convertElement el = None \<and> convertOSMToGeoJSON (Some [Some el]) = Inr []"
    if "geometry el = Some g" "extractCoords el g = Some coords"
       "length coords < 4 \<or> list_ex invalidCoord coords \<or> 100 < length (closeRing coords)"
    using convertElement_rejects [OF that] by (simp add: convert_single)
  from accepted rejected show ?thesis by blast
qed

theorem converter_accepts_only_valid_closed_rings_witness:
  "convertOSMToGeoJSON grabenPayload = Inr [grabenFeature] \<and>
   grabenFeature \<in> set [grabenFeature] \<and>
   geometry (wayOf grabenTags threeNodes) = Some (map nodeAt threeNodes) \<and>
   extractCoords (wayOf grabenTags threeNodes) (map nodeAt threeNodes) =
     Some (map pointOf threeNodes) \<and>
   length (map pointOf threeNodes) < 4 \<and>
   convertElement (wayOf grabenTags threeNodes) = None \<and>
   map length (coordinates grabenFeature) = [6] \<and>
   map hd (coordinates grabenFeature) = map last (coordinates grabenFeature)"
  using converter_accepts_only_valid_closed_rings
          [where d = grabenPayload and fs = "[grabenFeature]" and f = grabenFeature
             and el = "wayOf grabenTags threeNodes" and g = "map nodeAt threeNodes"
             and coords = "map pointOf threeNodes"]
        convert_grabenPayload
  by (simp add: wayOf_def extractCoords_def nodesToCoords_nodeAt threeNodes_def
        grabenFeature_def fiveNodes_def)

subsection \<open>Construction year\<close>

text \<open>
  C10. No feature the converter returns has a construction year: \<open>BAUJAHR\<close> is absent
  from every feature of every payload.
\<close>

theorem converter_never_sets_BAUJAHR:
  "convertOSMToGeoJSON d = Inr fs \<and> f \<in> set fs \<longrightarrow> BAUJAHR (props f) = None"
proof
  assume a: "convertOSMToGeoJSON d = Inr fs \<and> f \<in> set fs"
  then obtain el where "convertElement el = Some f"
    using converted_from_element by blast
  from convertElement_Some [OF this] show "BAUJAHR (props f) = None"
    by (auto simp: makeBuilding_def)
qed

theorem converter_never_sets_BAUJAHR_witness:
  "convertOSMToGeoJSON grabenPayload = Inr [grabenFeature] \<and>
   grabenFeature \<in> set [grabenFeature] \<and>
   BAUJAHR (props grabenFeature) = None"
  using converter_never_sets_BAUJAHR [of grabenPayload "[grabenFeature]" grabenFeature]
        convert_grabenPayload
  by simp


subsection \<open>parseInt\<close>

text \<open>The first bytes of the white space characters.\<close>

lemma whiteSpaceLength_first_byte:
  assumes "c \<notin> set [CHR 0x09, CHR 0x0A, CHR 0x0B, CHR 0x0C, CHR 0x0D, CHR 0x20,
                     CHR 0xC2, CHR 0xE1, CHR 0xE2, CHR 0xE3, CHR 0xEF]"
  shows "whiteSpaceLength (c # cs) = 0"
  using assms by (simp add: whiteSpaceLength_def whiteSpaceTable_def)

lemma trimStart_none: "whiteSpaceLength s = 0 \<Longrightarrow> trimStart s = s"
  by (simp add: trimStart.simps [of s])

lemma trimStart_step:
  "whiteSpaceLength s \<noteq> 0 \<Longrightarrow> trimStart s = trimStart (drop (whiteSpaceLength s) s)"
  by (simp add: trimStart.simps [of s])

lemma parseInt_skips_white_space:
  "whiteSpaceLength s \<noteq> 0 \<Longrightarrow> parseInt s = parseInt (drop (whiteSpaceLength s) s)"
  by (simp add: parseInt_def trimStart_step [of s])

lemma bitLength_le: "m < 2 ^ k \<Longrightarrow> bitLength m \<le> k"
proof (induction k arbitrary: m)
  case 0
  then have "m = 0" by simp
  then show ?case by (simp add: bitLength.simps [of 0])
next
  case (Suc k)
  then have "m div 2 < 2 ^ k" by auto
  from Suc.IH [OF this] show ?case by (simp add: bitLength.simps [of m])
qed

lemma toNumber_exact:
  assumes "m < 2 ^ 53"
  shows "toNumber False m = Num (int m)"
    and "0 < m \<Longrightarrow> toNumber True m = Num (- int m)"
proof -
  have e: "bitLength m - 53 = 0" using bitLength_le [OF assms] by simp
  have "(2::nat) ^ 53 \<le> 2 ^ 1024" by (rule power_increasing) simp_all
  with assms have small: "\<not> 2 ^ 1024 \<le> m" by linarith
  show "toNumber False m = Num (int m)"
    using small by (simp add: toNumber_def Let_def e)
  show "0 < m \<Longrightarrow> toNumber True m = Num (- int m)"
    using small by (simp add: toNumber_def Let_def e)
qed

lemma digit_no_white_space:
  assumes "d < 10"
  shows "whiteSpaceLength ((''0123456789'' ! d) # cs) = 0"
  using below_ten [OF assms] by (auto intro!: whiteSpaceLength_first_byte)

lemma digit_not_special:
  assumes "d < 10"
  shows "''0123456789'' ! d \<noteq> CHR ''+''" and "''0123456789'' ! d \<noteq> CHR ''-''"
    and "''0123456789'' ! d \<noteq> CHR ''x''" and "''0123456789'' ! d \<noteq> CHR ''X''"
  using below_ten [OF assms] by auto

lemma digitsOf_digits: "c \<in> set (digitsOf n) \<Longrightarrow> \<exists>d<10. c = ''0123456789'' ! d"
proof (induction n rule: digitsOf.induct)
  case (1 n)
  show ?case
  proof (cases "n < 10")
    case True
    with "1.prems" show ?thesis by (auto simp: digitsOf.simps [of n])
  next
    case False
    with "1.prems" have "c \<in> set (digitsOf (n div 10)) \<or> c = ''0123456789'' ! (n mod 10)"
      by (auto simp: digitsOf.simps [of n])
    then show ?thesis
    proof
      assume "c \<in> set (digitsOf (n div 10))"
      with "1.IH" [OF False] show ?thesis .
    next
      assume "c = ''0123456789'' ! (n mod 10)"
      moreover have "n mod 10 < 10" by simp
      ultimately show ?thesis by blast
    qed
  qed
qed

lemma digitsOf_nonempty: "digitsOf n \<noteq> []"
  by (simp add: digitsOf.simps [of n])

lemma digitsValue_stops:
  "rest = [] \<or> digitValue 10 (hd rest) = None \<Longrightarrow> digitsValue 10 v rest = v"
  by (cases rest) auto

lemma parseInt_decimal:
  assumes rest: "rest = [] \<or> (digitValue 10 (hd rest) = None \<and> hd rest \<noteq> CHR ''x'' \<and> hd rest \<noteq> CHR ''X'')"
  shows "parseInt (digitsOf n @ rest) = toNumber False n"
proof -
  obtain c cs where ds: "digitsOf n = c # cs"
    using digitsOf_nonempty [of n] by (cases "digitsOf n") auto
  then obtain d where d: "d < 10" "c = ''0123456789'' ! d"
    using digitsOf_digits [of c n] by auto
  note cd = digit_no_white_space [OF d(1), of "cs @ rest", folded d(2)]
    digit_not_special(1,2) [OF d(1), folded d(2)]
    digitValue_digit [OF d(1), folded d(2)]
  have no_prefix: "take 2 (c # cs @ rest) \<noteq> ''0x'' \<and> take 2 (c # cs @ rest) \<noteq> ''0X''"
  proof (cases cs)
    case Nil
    with rest show ?thesis by (cases rest) auto
  next
    case (Cons c' cs')
    then have "c' \<in> set (digitsOf n)" using ds by simp
    then obtain d' where d': "d' < 10" "c' = ''0123456789'' ! d'"
      using digitsOf_digits by blast
    show ?thesis
      using Cons digit_not_special(3,4) [OF d'(1), folded d'(2)] by simp
  qed
  have val: "digitsValue 10 0 (digitsOf n @ rest) = n"
    using digitsValue_stops [of rest n] rest by (auto simp: digitsValue_digitsOf)
  define s where "s = c # cs @ rest"
  have a: "trimStart s = s" using cd(1) by (simp add: s_def trimStart_none)
  have b: "take 1 s = [c]" by (simp add: s_def)
  have np: "take 2 s \<noteq> ''0x''" "take 2 s \<noteq> ''0X''"
    using no_prefix by (simp_all add: s_def)
  have "parseInt s = parseDigits False 10 s"
    unfolding parseInt_def Let_def a b using cd(2,3) np by simp
  also have "\<dots> = toNumber False (digitsValue 10 0 s)"
    using cd(4) by (simp add: parseDigits_def s_def)
  finally show ?thesis using val ds by (simp add: s_def)
qed

lemma whiteSpaceLength_Nil: "whiteSpaceLength [] = 0"
  using whiteSpaceLength_le [of "[]"] by simp

lemma parseInt_Nil: "parseInt [] = NaN"
  by (simp add: parseInt_def parseDigits_def trimStart_none whiteSpaceLength_Nil)

lemma digitValue_zero: "digitValue 10 (CHR ''0'') = Some 0"
  by (simp add: digitValue_def digitTable_def)

lemma parseInt_no_digit:
  assumes "digitValue 10 c = None" "whiteSpaceLength (c # cs) = 0"
    "c \<noteq> CHR ''+''" "c \<noteq> CHR ''-''"
  shows "parseInt (c # cs) = NaN"
proof -
  have "c \<noteq> CHR ''0''" using assms(1) digitValue_zero by auto
  with assms show ?thesis
    by (simp add: parseInt_def parseDigits_def Let_def trimStart_none)
qed

lemma parseInt_abc: "parseInt ''abc'' = NaN"
  by (rule parseInt_no_digit)
     (simp_all add: digitValue_def digitTable_def whiteSpaceLength_first_byte)

lemmas bitLength_numeral = bitLength.simps [of "numeral k" for k] bitLength.simps [of 0]
  bitLength.simps [of "Suc 0"]

text \<open>
  A no-break space before the digits is skipped; a number of more than 53 binary digits
  is rounded to the nearest double.
\<close>

lemma parseInt_after_no_break_space: "parseInt [CHR 0xC2, CHR 0xA0, CHR ''7''] = Num 7"
proof -
  have w: "whiteSpaceLength [CHR 0xC2, CHR 0xA0, CHR ''7''] = 2"
    by (simp add: whiteSpaceLength_def whiteSpaceTable_def)
  have "parseInt [CHR 0xC2, CHR 0xA0, CHR ''7''] = parseInt ''7''"
    using parseInt_skips_white_space [of "[CHR 0xC2, CHR 0xA0, CHR ''7'']"] w by simp
  moreover have "digitsOf 7 @ [] = ''7''" by (simp add: digitsOf.simps [of 7])
  moreover have "parseInt (digitsOf 7 @ []) = toNumber False 7"
    by (rule parseInt_decimal) simp
  moreover have "toNumber False 7 = Num 7" using toNumber_exact(1) [of 7] by simp
  ultimately show ?thesis by simp
qed

lemma toNumber_rounds: "toNumber False 9007199254740993 = Num 9007199254740992"
  by (simp add: toNumber_def Let_def bitLength_numeral)

subsection \<open>The Graben scenario\<close>

text \<open>
  C5, as the code has it. A payload with one way tagged \<open>building = yes\<close>,
  \<open>addr:street = Graben\<close>, \<open>addr:housenumber = 21\<close> over five nodes inside the box gives
  exactly one feature, with \<open>ADRESSE\<close> \<open>Graben 21\<close> and \<open>BAUWEISE\<close> \<open>structure\<close> (the last
  fallback of \<open>getBuildingType\<close>), no floor count, no construction year and no name. Its
  ring is the five points when the fifth node repeats the first, and then has length 5;
  otherwise the converter appends the first point and the ring has length 6.
\<close>

theorem graben_way_yields_one_feature:
  "length pts = 5 \<and> list_all inBox pts \<longrightarrow>
     convertOSMToGeoJSON (Some [Some (wayOf grabenTags pts)]) =
       Inr [\<lparr>props =
               \<lparr>ADRESSE = Some ''Graben 21'', BAUWEISE = Some ''structure'',
                STOCKWERKE = None, BAUJAHR = None, NAME = None\<rparr>,
             coordinates =
               [if hd pts = last pts then map pointOf pts
                else map pointOf pts @ [pointOf (hd pts)]]\<rparr>] \<and>
     length (if hd pts = last pts then map pointOf pts
             else map pointOf pts @ [pointOf (hd pts)]) =
       (if hd pts = last pts then 5 else 6)"
proof
  assume a: "length pts = 5 \<and> list_all inBox pts"
  then have "convertElement (wayOf grabenTags pts) =
     Some \<lparr>props = grabenProps,
           coordinates = [if hd pts = last pts then map pointOf pts
                          else map pointOf pts @ [pointOf (hd pts)]]\<rparr>"
    by (intro convert_graben_way) simp_all
  from convert_single(1) [OF this] a
  show "convertOSMToGeoJSON (Some [Some (wayOf grabenTags pts)]) =
       Inr [\<lparr>props =
               \<lparr>ADRESSE = Some ''Graben 21'', BAUWEISE = Some ''structure'',
                STOCKWERKE = None, BAUJAHR = None, NAME = None\<rparr>,
             coordinates =
               [if hd pts = last pts then map pointOf pts
                else map pointOf pts @ [pointOf (hd pts)]]\<rparr>] \<and>
     length (if hd pts = last pts then map pointOf pts
             else map pointOf pts @ [pointOf (hd pts)]) =
       (if hd pts = last pts then 5 else 6)"
    by (simp add: grabenProps_def)
qed

theorem graben_way_yields_one_feature_witness:
  "length closedFive = 5 \<and> list_all inBox closedFive \<and>
   convertOSMToGeoJSON (Some [Some (wayOf grabenTags closedFive)]) =
     Inr [\<lparr>props = grabenProps, coordinates = [map pointOf closedFive]\<rparr>] \<and>
   length (map pointOf closedFive) = 5"
  using graben_way_yields_one_feature [of closedFive] closedFive_facts
  by (simp add: grabenProps_def)

text \<open>
  The scenario with five nodes of which the last differs from the first, so that the
  converter closes the ring: the ring of the feature has six points, not five.
\<close>

theorem graben_open_way_ring_has_six_points:
  "length fiveNodes = 5 \<and> list_all inBox fiveNodes \<and> hd fiveNodes \<noteq> last fiveNodes \<and>
   convertOSMToGeoJSON grabenPayload = Inr [grabenFeature] \<and>
   map length (coordinates grabenFeature) = [6]"
  using fiveNodes_facts convert_grabenPayload
  by (simp add: grabenFeature_def)

subsection \<open>Floor count\<close>

lemma hasStructureTag_levels:
  "hasStructureTag (t(''building:levels'' \<mapsto> s)) = hasStructureTag t"
  by (simp add: hasStructureTag_def)

lemma levels_lookup:
  "(t(''building:levels'' \<mapsto> s)) ''building'' = t ''building''"
  "(t(''building:levels'' \<mapsto> s)) ''building:part'' = t ''building:part''"
  "(t(''building:levels'' \<mapsto> s)) ''landuse'' = t ''landuse''"
  "(t(''building:levels'' \<mapsto> s)) ''man_made'' = t ''man_made''"
  "(t(''building:levels'' \<mapsto> s)) ''amenity'' = t ''amenity''"
  "(t(''building:levels'' \<mapsto> s)) ''leisure'' = t ''leisure''"
  "(t(''building:levels'' \<mapsto> s)) ''shop'' = t ''shop''"
  "(t(''building:levels'' \<mapsto> s)) ''office'' = t ''office''"
  "(t(''building:levels'' \<mapsto> s)) ''tourism'' = t ''tourism''"
  "(t(''building:levels'' \<mapsto> s)) ''historic'' = t ''historic''"
  "(t(''building:levels'' \<mapsto> s)) ''aeroway'' = t ''aeroway''"
  "(t(''building:levels'' \<mapsto> s)) ''railway'' = t ''railway''"
  "(t(''building:levels'' \<mapsto> s)) ''public_transport'' = t ''public_transport''"
  "(t(''building:levels'' \<mapsto> s)) ''craft'' = t ''craft''"
  "(t(''building:levels'' \<mapsto> s)) ''industrial'' = t ''industrial''"
  "(t(''building:levels'' \<mapsto> s)) ''addr:street'' = t ''addr:street''"
  "(t(''building:levels'' \<mapsto> s)) ''addr:housenumber'' = t ''addr:housenumber''"
  "(t(''building:levels'' \<mapsto> s)) ''name'' = t ''name''"
  "(t(''building:levels'' \<mapsto> s)) ''building:levels'' = Some s"
  by simp_all

lemma getBuildingType_levels:
  "getBuildingType (t(''building:levels'' \<mapsto> s)) = getBuildingType t"
  unfolding getBuildingType_def levels_lookup ..

lemma getBuildingTypeLabel_levels:
  "getBuildingTypeLabel (t(''building:levels'' \<mapsto> s)) = getBuildingTypeLabel t"
  unfolding getBuildingTypeLabel_def levels_lookup ..

lemma makeBuilding_levels:
  assumes "s \<noteq> []"
  shows "makeBuilding (t(''building:levels'' \<mapsto> s)) ring =
     (makeBuilding t ring)\<lparr>props := (props (makeBuilding t ring))\<lparr>STOCKWERKE := Some (parseInt s)\<rparr>\<rparr>"
proof -
  have lv: "truthy (orElse (Some s) x)" "render (orElse (Some s) x) = s" for x
    using assms by (simp_all add: truthy_def orElse_def render_def)
  show ?thesis
    unfolding makeBuilding_def levels_lookup getBuildingType_levels getBuildingTypeLabel_levels
    by (simp add: lv split del: if_split)
qed

lemma extractCoords_tags [simp]: "extractCoords (el\<lparr>tags := x\<rparr>) g = extractCoords el g"
  by (simp add: extractCoords_def)

lemma convertElement_levels:
  assumes "convertElement el = Some f" "tags el = Some t" "s \<noteq> []"
  shows "convertElement (el\<lparr>tags := Some (t(''building:levels'' \<mapsto> s))\<rparr>) =
           Some (f\<lparr>props := (props f)\<lparr>STOCKWERKE := Some (parseInt s)\<rparr>\<rparr>)"
  using assms
  by (auto simp: convertElement_def hasStructureTag_levels makeBuilding_levels
           split: option.splits if_splits)

lemma STOCKWERKE_makeBuilding:
  "STOCKWERKE (props (makeBuilding t ring)) =
     (if truthy (t ''building:levels'') then Some (parseInt (render (t ''building:levels'')))
      else if truthy (t ''levels'') then Some (parseInt (render (t ''levels'')))
      else None)"
  by (simp add: makeBuilding_def orElse_def)

text \<open>
  C6, as the code has it. The floor count of an accepted element is \<open>parseInt\<close> of the
  tag \<open>building:levels\<close> when that is present and not empty, else of the tag \<open>levels\<close>
  when that is, and is absent only when neither is. Whatever non-empty text the tag
  holds, the element is accepted as before and no error arises. \<open>parseInt\<close> skips
  leading white space and gives the whole number the text then begins with: the decimal
  rendering of \<open>n\<close>, alone or followed by text that starts with no digit, parses to the
  number for \<open>n\<close>, which is \<open>n\<close> itself below \<open>2^53\<close> and the nearest double above. For
  the empty text, and for text that starts with no white space, no sign and no digit,
  it gives not-a-number, and that value is what the feature stores.
\<close>

theorem floor_count_is_parseInt_of_tag:
  "(convertElement el = Some f \<and> tags el = Some t \<longrightarrow>
      STOCKWERKE (props f) =
        (if truthy (t ''building:levels'') then Some (parseInt (render (t ''building:levels'')))
         else if truthy (t ''levels'') then Some (parseInt (render (t ''levels'')))
         else None)) \<and>
   (convertElement el = Some f \<and> tags el = Some t \<and> s \<noteq> [] \<longrightarrow>
      convertElement (el\<lparr>tags := Some (t(''building:levels'' \<mapsto> s))\<rparr>) =
        Some (f\<lparr>props := (props f)\<lparr>STOCKWERKE := Some (parseInt s)\<rparr>\<rparr>)) \<and>
   parseInt [] = NaN \<and>
   (whiteSpaceLength s \<noteq> 0 \<longrightarrow> parseInt s = parseInt (drop (whiteSpaceLength s) s)) \<and>
   (whiteSpaceLength (c # cs) = 0 \<and> digitValue 10 c = None \<and>
    c \<noteq> CHR ''+'' \<and> c \<noteq> CHR ''-'' \<longrightarrow>
      parseInt (c # cs) = NaN) \<and>
   (rest = [] \<or>
    digitValue 10 (hd rest) = None \<and> hd rest \<noteq> CHR ''x'' \<and> hd rest \<noteq> CHR ''X'' \<longrightarrow>
      parseInt (digitsOf n @ rest) = toNumber False n) \<and>
   (n < 2 ^ 53 \<longrightarrow> toNumber False n = Num (int n))"
proof -
  have A: "STOCKWERKE (props f) =
        (if truthy (t ''building:levels'') then Some (parseInt (render (t ''building:levels'')))
         else if truthy (t ''levels'') then Some (parseInt (render (t ''levels'')))
         else None)"
    if "convertElement el = Some f" "tags el = Some t"
    using convertElement_Some [OF that(1)] that(2) by (auto simp: STOCKWERKE_makeBuilding)
  have B: "parseInt (digitsOf n @ rest) = toNumber False n"
    if "rest = [] \<or>
        digitValue 10 (hd rest) = None \<and> hd rest \<noteq> CHR ''x'' \<and> hd rest \<noteq> CHR ''X''"
    using that by (intro parseInt_decimal) blast
  from A B show ?thesis
    using convertElement_levels [of el f t s] parseInt_Nil parseInt_no_digit [of c cs]
      parseInt_skips_white_space [of s] toNumber_exact(1) [of n]
    by blast
qed

theorem floor_count_is_parseInt_of_tag_witness:
  "convertElement (wayOf grabenTags fiveNodes) = Some grabenFeature \<and>
   tags (wayOf grabenTags fiveNodes) = Some grabenTags \<and>
   STOCKWERKE (props grabenFeature) = None \<and>
   convertElement ((wayOf grabenTags fiveNodes)
       \<lparr>tags := Some (grabenTags(''building:levels'' \<mapsto> ''3.5''))\<rparr>) =
     Some (grabenFeature\<lparr>props := (props grabenFeature)\<lparr>STOCKWERKE := Some (Num 3)\<rparr>\<rparr>) \<and>
   digitValue 10 (CHR ''a'') = None \<and> whiteSpaceLength ''abc'' = 0 \<and> parseInt ''abc'' = NaN \<and>
   parseInt ''3.5'' = Num 3"
proof -
  have conv: "convertElement (wayOf grabenTags fiveNodes) = Some grabenFeature"
    using convert_graben_way [OF fiveNodes_facts(1,2)] fiveNodes_facts(3)
    by (simp add: grabenFeature_def)
  have t: "tags (wayOf grabenTags fiveNodes) = Some grabenTags"
    by (simp add: wayOf_def)
  have three: "digitsOf 3 @ ''.5'' = ''3.5''"
    by (simp add: digitsOf_numeral)
  have dot: "digitValue 10 (CHR ''.'') = None" "digitValue 10 (CHR ''a'') = None"
    "whiteSpaceLength ''abc'' = 0" "whiteSpaceLength ''3.5'' = 0"
    by (simp_all add: digitValue_def digitTable_def whiteSpaceLength_first_byte)
  have small: "(3::nat) < 2 ^ 53" by simp
  show ?thesis
    using floor_count_is_parseInt_of_tag
            [where el = "wayOf grabenTags fiveNodes" and f = grabenFeature and t = grabenTags
               and s = "''3.5''" and c = "CHR ''a''" and cs = "''bc''" and rest = "''.5''"
               and n = 3]
          conv t three dot small
    by (simp add: grabenFeature_def grabenProps_def)
qed

text \<open>
  The floor count for a tag value that is no number: the way of the Graben scenario
  with \<open>building:levels = abc\<close> is accepted, and its feature stores not-a-number as the
  floor count, so the floor count is not absent.
\<close>

theorem floor_count_of_unparsable_tag_is_stored:
  "convertOSMToGeoJSON
     (Some [Some (wayOf (grabenTags(''building:levels'' \<mapsto> ''abc'')) fiveNodes)]) =
     Inr [grabenFeature\<lparr>props := grabenProps\<lparr>STOCKWERKE := Some NaN\<rparr>\<rparr>] \<and>
   STOCKWERKE (props (grabenFeature\<lparr>props := grabenProps\<lparr>STOCKWERKE := Some NaN\<rparr>\<rparr>)) = Some NaN"
proof -
  have conv: "convertElement (wayOf grabenTags fiveNodes) = Some grabenFeature"
    using convert_graben_way [OF fiveNodes_facts(1,2)] fiveNodes_facts(3)
    by (simp add: grabenFeature_def)
  have "convertElement ((wayOf grabenTags fiveNodes)
          \<lparr>tags := Some (grabenTags(''building:levels'' \<mapsto> ''abc''))\<rparr>) =
        Some (grabenFeature\<lparr>props := (props grabenFeature)\<lparr>STOCKWERKE := Some (parseInt ''abc'')\<rparr>\<rparr>)"
    using conv by (intro convertElement_levels) (simp_all add: wayOf_def)
  then have "convertElement (wayOf (grabenTags(''building:levels'' \<mapsto> ''abc'')) fiveNodes) =
        Some (grabenFeature\<lparr>props := grabenProps\<lparr>STOCKWERKE := Some NaN\<rparr>\<rparr>)"
    by (simp add: wayOf_def parseInt_abc grabenFeature_def)
  from convert_single(1) [OF this] show ?thesis by simp
qed


section \<open>Properties of the viewport loader\<close>

lemma keyOf_regionA: "keyOf regionA = [48.197, 16.367, 48.213, 16.383]"
  by (simp add: keyOf_def regionA_def addBoundsBuffer_def boundsToOverpassBbox_def Let_def)

lemma within_regionA: "isWithinVienna regionA"
  by (simp add: isWithinVienna_def boundsOverlap_def regionA_def viennaBounds_def)

lemma key_buffered_regionA:
  "boundsToKey (addBoundsBuffer regionA 0.3) = ''48.2130,48.1970,16.3830,16.3670''"
  by (simp add: regionA_def addBoundsBuffer_def Let_def boundsToKey_def toFixed4_def
        digitsOf_numeral digitsOf_0 digitsOf_1)

lemma begin_miss:
  assumes "isWithinVienna b" "keyOf b \<notin> loadingRef s"
    "Map_get (boundsToKey (addBoundsBuffer b 0.3)) (cache (buildingCache s)) = None"
  shows "loadBuildings_begin b s =
           (s\<lparr>loading := True, error := None, loadingRef := insert (keyOf b) (loadingRef s)\<rparr>,
            Some (keyOf b))"
  using assms
  by (simp add: loadBuildings_begin_def Let_def keyOf_def BoundsCache_get_def)

lemma begin_hit:
  assumes "isWithinVienna b" "keyOf b \<notin> loadingRef s"
    "Map_get (boundsToKey (addBoundsBuffer b 0.3)) (cache (buildingCache s)) = Some entry"
  shows "loadBuildings_begin b s =
           (s\<lparr>buildingCache := snd (BoundsCache_get (addBoundsBuffer b 0.3) (buildingCache s)),
              buildings := buildings s @ data entry\<rparr>, None)"
  using assms
  by (simp add: loadBuildings_begin_def Let_def keyOf_def BoundsCache_get_def)

lemma begin_skip:
  assumes "\<not> isWithinVienna b \<or> keyOf b \<in> loadingRef s"
  shows "loadBuildings_begin b s = (s, None)"
  using assms by (auto simp: loadBuildings_begin_def Let_def keyOf_def)

lemma resume_success:
  assumes "convertOSMToGeoJSON d = Inr newBuildings"
  shows "loadBuildings_resume now b (JsonBody d) s =
           s\<lparr>buildingCache :=
                BoundsCache_set now (addBoundsBuffer b 0.3) newBuildings (buildingCache s),
              buildings := mergeBuildings (buildings s) newBuildings,
              loading := False, loadingRef := loadingRef s - {keyOf b}\<rparr>"
  using assms by (simp add: loadBuildings_resume_def tryBody_def Let_def keyOf_def)

lemma firstPointKey_graben: "firstPointKey grabenFeature = Some [16.369, 48.208]"
  by (simp add: firstPointKey_def grabenFeature_def fiveNodes_def)

lemma run_Nil: "run w [] = w"
  by (simp add: run_def)

lemma run_Cons: "run w (ev # evs) = run (fire w ev) evs"
  by (simp add: run_def)

lemma begin_cases:
  obtains (skip) "\<not> isWithinVienna b \<or> keyOf b \<in> loadingRef s"
      "loadBuildings_begin b s = (s, None)"
  | (hit) entry where "isWithinVienna b" "keyOf b \<notin> loadingRef s"
      "Map_get (boundsToKey (addBoundsBuffer b 0.3)) (cache (buildingCache s)) = Some entry"
      "loadBuildings_begin b s =
         (s\<lparr>buildingCache := snd (BoundsCache_get (addBoundsBuffer b 0.3) (buildingCache s)),
            buildings := buildings s @ data entry\<rparr>, None)"
  | (miss) "isWithinVienna b" "keyOf b \<notin> loadingRef s"
      "Map_get (boundsToKey (addBoundsBuffer b 0.3)) (cache (buildingCache s)) = None"
      "loadBuildings_begin b s =
         (s\<lparr>loading := True, error := None, loadingRef := insert (keyOf b) (loadingRef s)\<rparr>,
          Some (keyOf b))"
proof (cases "\<not> isWithinVienna b \<or> keyOf b \<in> loadingRef s")
  case True
  then show ?thesis using skip begin_skip by blast
next
  case False
  then have w: "isWithinVienna b" "keyOf b \<notin> loadingRef s" by auto
  show ?thesis
  proof (cases "Map_get (boundsToKey (addBoundsBuffer b 0.3)) (cache (buildingCache s))")
    case None
    with w show ?thesis using miss begin_miss by blast
  next
    case (Some entry)
    with w show ?thesis using hit begin_hit by blast
  qed
qed

lemma resume_flags:
  "loading (loadBuildings_resume now b r s) = False"
  "loadingRef (loadBuildings_resume now b r s) = loadingRef s - {keyOf b}"
  by (auto simp: loadBuildings_resume_def tryBody_def catchError_def Let_def keyOf_def
           split: response.splits sum.splits)

lemma resume_failure:
  assumes "tryBody now b r s = Inl err"
  shows "loadBuildings_resume now b r s =
           s\<lparr>error := Some (case err of ErrorObject message \<Rightarrow> message
                                        | OtherValue \<Rightarrow> ''Failed to load buildings''),
              loading := False, loadingRef := loadingRef s - {keyOf b}\<rparr>"
  using assms by (simp add: loadBuildings_resume_def catchError_def Let_def keyOf_def)

lemma remove_nth_keys:
  assumes "distinct (map f xs)" "i < length xs"
  shows "distinct (map f (take i xs @ drop (Suc i) xs))"
    and "set (map f (take i xs @ drop (Suc i) xs)) = set (map f xs) - {f (xs ! i)}"
proof -
  have xs: "xs = take i xs @ xs ! i # drop (Suc i) xs"
    using assms(2) by (rule id_take_nth_drop)
  have d: "distinct (map f (take i xs @ xs ! i # drop (Suc i) xs))"
    using assms(1) xs by simp
  then show "distinct (map f (take i xs @ drop (Suc i) xs))" by auto
  have "set (map f xs) = set (map f (take i xs @ xs ! i # drop (Suc i) xs))"
    using xs by simp
  then show "set (map f (take i xs @ drop (Suc i) xs)) = set (map f xs) - {f (xs ! i)}"
    using d by auto
qed

lemma inFlightInv_fire:
  assumes "inFlightInv w"
  shows "inFlightInv (fire w ev)"
proof (cases ev)
  case (Call b)
  show ?thesis
  proof (cases b "state w" rule: begin_cases)
    case skip
    then show ?thesis using assms Call by (simp add: inFlightInv_def)
  next
    case (hit entry)
    then show ?thesis using assms Call by (simp add: inFlightInv_def)
  next
    case miss
    then show ?thesis using assms Call by (auto simp: inFlightInv_def)
  qed
next
  case (Return i now r)
  show ?thesis
  proof (cases "i < length (suspended w)")
    case True
    from assms have d: "distinct (map keyOf (suspended w))"
      and s: "set (map keyOf (suspended w)) = loadingRef (state w)"
      by (simp_all add: inFlightInv_def)
    show ?thesis
      using True Return remove_nth_keys [OF d True] s
      by (simp add: inFlightInv_def resume_flags)
  next
    case False
    then show ?thesis using assms Return by simp
  qed
next
  case ClearCache
  then show ?thesis using assms by (simp add: inFlightInv_def clearCache_def)
qed

lemma inFlightInv_run: "inFlightInv w \<Longrightarrow> inFlightInv (run w evs)"
  unfolding run_def by (induction evs arbitrary: w) (simp_all add: inFlightInv_fire)

lemma inFlightInv_initial: "inFlightInv initialWorld"
  by (simp add: inFlightInv_def initialWorld_def initialState_def)

subsection \<open>Merging\<close>

lemma mergeBuildings_keys:
  "map firstPointKey (mergeBuildings prev new) =
     map firstPointKey prev @
     filter (\<lambda>k. k \<notin> set (map firstPointKey prev)) (map firstPointKey new)"
  by (simp add: mergeBuildings_def Let_def filter_map comp_def)

text \<open>
  The merge after a fetch keeps the accumulated set free of shared first points when
  the fetched batch itself has none, and merging the same batch a second time adds
  nothing.
\<close>

lemma mergeBuildings_noSharedFirstPoint:
  assumes "noSharedFirstPoint prev" "noSharedFirstPoint new"
  shows "noSharedFirstPoint (mergeBuildings prev new)"
  using assms unfolding noSharedFirstPoint_def mergeBuildings_keys
  by (auto simp: distinct_filter)

lemma mergeBuildings_again:
  "mergeBuildings (mergeBuildings prev new) new = mergeBuildings prev new"
proof -
  have "filter (\<lambda>building. firstPointKey building
            \<notin> set (map firstPointKey (mergeBuildings prev new))) new = []"
    unfolding mergeBuildings_keys by (auto simp: filter_empty_conv)
  then show ?thesis
    by (simp add: mergeBuildings_def [of "mergeBuildings prev new"] Let_def)
qed

text \<open>The merge does not compare the features of one batch with each other.\<close>

lemma mergeBuildings_keeps_duplicates_of_a_batch:
  "mergeBuildings [] [grabenFeature, grabenFeature] = [grabenFeature, grabenFeature]"
  by (simp add: mergeBuildings_def)

subsection \<open>Loading a region twice\<close>

text \<open>
  C1, at a concrete input. The loader starts empty. Region A is requested; the fetch
  returns the payload of the Graben scenario, whose one feature is accumulated and
  cached. Region A is requested again: the cache answers, no second fetch is made, and
  the cached feature is appended as it is. The accumulated set now holds the feature
  twice, two features with the same first ring point.
\<close>

theorem loading_a_cached_region_again_duplicates_features:
  "buildings (state (run initialWorld
      [Call regionA, Return 0 7 (JsonBody grabenPayload), Call regionA])) =
     [grabenFeature, grabenFeature] \<and>
   fetches (run initialWorld
      [Call regionA, Return 0 7 (JsonBody grabenPayload), Call regionA]) = [keyOf regionA] \<and>
   \<not> noSharedFirstPoint [grabenFeature, grabenFeature]"
proof -
  let ?s1 = "initialState\<lparr>loading := True, error := None, loadingRef := {keyOf regionA}\<rparr>"
  have b1: "loadBuildings_begin regionA initialState = (?s1, Some (keyOf regionA))"
    using begin_miss [of regionA initialState] within_regionA
    by (simp add: initialState_def newBoundsCache_def)
  let ?w1 = "\<lparr>state = ?s1, suspended = [regionA], fetches = [keyOf regionA]\<rparr>"
  have w1: "fire initialWorld (Call regionA) = ?w1"
    by (simp add: b1 initialWorld_def)
  let ?c2 = "BoundsCache_set 7 (addBoundsBuffer regionA 0.3) [grabenFeature] newBoundsCache"
  let ?s2 = "initialState\<lparr>buildingCache := ?c2, buildings := [grabenFeature]\<rparr>"
  have r2: "loadBuildings_resume 7 regionA (JsonBody grabenPayload) ?s1 = ?s2"
    using resume_success [OF convert_grabenPayload, of 7 regionA ?s1]
    by (simp add: initialState_def mergeBuildings_def)
  let ?w2 = "\<lparr>state = ?s2, suspended = [], fetches = [keyOf regionA]\<rparr>"
  have w2: "fire ?w1 (Return 0 7 (JsonBody grabenPayload)) = ?w2"
    by (simp add: r2)
  have c2: "Map_get (boundsToKey (addBoundsBuffer regionA 0.3)) (cache ?c2) =
              Some \<lparr>data = [grabenFeature], timestamp = 7, bounds = addBoundsBuffer regionA 0.3\<rparr>"
    by (simp add: BoundsCache_set_def newBoundsCache_def Let_def)
  have b3: "buildings (fst (loadBuildings_begin regionA ?s2)) = [grabenFeature, grabenFeature]"
    "snd (loadBuildings_begin regionA ?s2) = None"
    using begin_hit [of regionA ?s2, OF within_regionA _ _] c2
    by (simp_all add: initialState_def)
  have b: "buildings (state (fire ?w2 (Call regionA))) = [grabenFeature, grabenFeature]"
    "fetches (fire ?w2 (Call regionA)) = [keyOf regionA]"
    using b3 by (cases "loadBuildings_begin regionA ?s2"; simp)+
  have "run initialWorld [Call regionA, Return 0 7 (JsonBody grabenPayload), Call regionA] =
          fire ?w2 (Call regionA)"
    by (simp only: run_Cons run_Nil w1 w2)
  with b have "buildings (state (run initialWorld
      [Call regionA, Return 0 7 (JsonBody grabenPayload), Call regionA])) =
     [grabenFeature, grabenFeature]"
    "fetches (run initialWorld
      [Call regionA, Return 0 7 (JsonBody grabenPayload), Call regionA]) = [keyOf regionA]"
    by (simp_all only:)
  moreover have "\<not> noSharedFirstPoint [grabenFeature, grabenFeature]"
    by (simp add: noSharedFirstPoint_def)
  ultimately show ?thesis by blast
qed

subsection \<open>The in-flight set\<close>

lemma call_in_flight_is_noop:
  assumes "keyOf b \<in> loadingRef (state w)"
  shows "fire w (Call b) = w"
  using assms begin_skip [of b "state w"] by simp

lemma calls_in_flight_are_noops:
  assumes "keyOf b \<in> loadingRef (state w)" "\<forall>b' \<in> set bs. keyOf b' = keyOf b"
  shows "run w (map Call bs) = w"
  using assms(2)
proof (induction bs)
  case Nil
  then show ?case by (simp add: run_Nil)
next
  case (Cons b' bs)
  then have "fire w (Call b') = w"
    using assms(1) call_in_flight_is_noop [of b' w] by simp
  with Cons show ?case by (simp add: run_Cons)
qed

lemma begin_fetch:
  assumes "snd (loadBuildings_begin b s) = Some bbox"
  shows "bbox = keyOf b" "keyOf b \<notin> loadingRef s"
    "keyOf b \<in> loadingRef (fst (loadBuildings_begin b s))"
    "loadingRef (fst (loadBuildings_begin b s)) = insert (keyOf b) (loadingRef s)"
  using assms by (cases b s rule: begin_cases; simp)+

lemma keyOf_regionA2: "keyOf regionA2 = [48.196997, 16.367, 48.213013, 16.383]"
  by (simp add: keyOf_def regionA2_def addBoundsBuffer_def boundsToOverpassBbox_def Let_def)

lemma within_regionA2: "isWithinVienna regionA2"
  by (simp add: isWithinVienna_def boundsOverlap_def regionA2_def viennaBounds_def)

lemma key_buffered_regionA2:
  "boundsToKey (addBoundsBuffer regionA2 0.3) = ''48.2130,48.1970,16.3830,16.3670''"
  by (simp add: regionA2_def addBoundsBuffer_def Let_def boundsToKey_def toFixed4_def
        digitsOf_numeral digitsOf_0 digitsOf_1)

text \<open>
  Two calls whose buffered bounds have the same four-decimal signature but not the same
  bounding box text: region A is requested and, before its fetch returns, region A
  with the north edge moved by 0.00001. The in-flight key of the second call is not in
  the set, so a second fetch is started: two fetches are outstanding for one signature.
\<close>

theorem same_signature_other_bbox_fetches_again:
  "boundsToKey (addBoundsBuffer regionA2 0.3) = boundsToKey (addBoundsBuffer regionA 0.3) \<and>
   keyOf regionA2 \<noteq> keyOf regionA \<and>
   fetches (run initialWorld [Call regionA, Call regionA2]) = [keyOf regionA, keyOf regionA2] \<and>
   suspended (run initialWorld [Call regionA, Call regionA2]) = [regionA, regionA2]"
proof -
  let ?s1 = "initialState\<lparr>loading := True, error := None, loadingRef := {keyOf regionA}\<rparr>"
  have ne: "keyOf regionA2 \<noteq> keyOf regionA"
    by (simp add: keyOf_regionA keyOf_regionA2)
  have b1: "loadBuildings_begin regionA initialState = (?s1, Some (keyOf regionA))"
    using begin_miss [of regionA initialState] within_regionA
    by (simp add: initialState_def newBoundsCache_def)
  let ?w1 = "\<lparr>state = ?s1, suspended = [regionA], fetches = [keyOf regionA]\<rparr>"
  have w1: "fire initialWorld (Call regionA) = ?w1"
    by (simp add: b1 initialWorld_def)
  have b2: "snd (loadBuildings_begin regionA2 ?s1) = Some (keyOf regionA2)"
    using begin_miss [of regionA2 ?s1] within_regionA2 ne
    by (simp add: initialState_def newBoundsCache_def)
  have w2: "fetches (fire ?w1 (Call regionA2)) = [keyOf regionA, keyOf regionA2]"
    "suspended (fire ?w1 (Call regionA2)) = [regionA, regionA2]"
    using b2 by (cases "loadBuildings_begin regionA2 ?s1"; simp)+
  have "run initialWorld [Call regionA, Call regionA2] = fire ?w1 (Call regionA2)"
    by (simp only: run_Cons run_Nil w1)
  with w2 have "fetches (run initialWorld [Call regionA, Call regionA2]) =
      [keyOf regionA, keyOf regionA2]"
    "suspended (run initialWorld [Call regionA, Call regionA2]) = [regionA, regionA2]"
    by (simp_all only:)
  with ne show ?thesis
    by (simp add: key_buffered_regionA key_buffered_regionA2)
qed

text \<open>
  C2, as the code has it. The in-flight key of a call is the text of its buffered
  bounding box, not the rounded signature. In every world the loader can reach from its
  start, by calls, returns of suspended calls in any order and with any outcome, and
  cache clears: no two suspended calls have the same in-flight key, and the in-flight
  set holds exactly the keys of the suspended calls. What a call does before it
  suspends is decided by three tests. Out of the region, or with its key in the set, it
  returns with the state as it was and no fetch. Otherwise, with its buffered bounds in
  the cache, it returns without a fetch and leaves the in-flight set alone; with them
  not in the cache it puts its key into the set and starts the fetch for that key. The
  return of a call, whatever came back, takes its key out. So when a call in the
  region, not in flight and not cached is followed, before it returns, by any number of
  calls with the same key, exactly one fetch is added to the log and one call is
  suspended.
\<close>

theorem one_fetch_in_flight_per_bbox_key:
  "distinct (map keyOf (suspended (run initialWorld evs))) \<and>
   set (map keyOf (suspended (run initialWorld evs))) = loadingRef (state (run initialWorld evs)) \<and>
   (\<not> isWithinVienna b \<or> keyOf b \<in> loadingRef s \<longrightarrow> loadBuildings_begin b s = (s, None)) \<and>
   (isWithinVienna b \<and> keyOf b \<notin> loadingRef s \<and>
    Map_get (boundsToKey (addBoundsBuffer b 0.3)) (cache (buildingCache s)) = None \<longrightarrow>
      loadBuildings_begin b s =
        (s\<lparr>loading := True, error := None, loadingRef := insert (keyOf b) (loadingRef s)\<rparr>,
         Some (keyOf b))) \<and>
   (isWithinVienna b \<and> keyOf b \<notin> loadingRef s \<and>
    Map_get (boundsToKey (addBoundsBuffer b 0.3)) (cache (buildingCache s)) = Some entry \<longrightarrow>
      loadBuildings_begin b s =
        (s\<lparr>buildingCache := snd (BoundsCache_get (addBoundsBuffer b 0.3) (buildingCache s)),
           buildings := buildings s @ data entry\<rparr>, None)) \<and>
   loadingRef (loadBuildings_resume now b r s) = loadingRef s - {keyOf b} \<and>
   (keyOf b \<in> loadingRef (state w) \<longrightarrow> fire w (Call b) = w) \<and>
   (isWithinVienna b \<and> keyOf b \<notin> loadingRef (state w) \<and>
    Map_get (boundsToKey (addBoundsBuffer b 0.3)) (cache (buildingCache (state w))) = None \<and>
    (\<forall>b' \<in> set bs. keyOf b' = keyOf b) \<longrightarrow>
      fetches (run w (Call b # map Call bs)) = fetches w @ [keyOf b] \<and>
      suspended (run w (Call b # map Call bs)) = suspended w @ [b] \<and>
      loadingRef (state (run w (Call b # map Call bs))) = insert (keyOf b) (loadingRef (state w)))"
proof -
  have inv: "inFlightInv (run initialWorld evs)"
    using inFlightInv_initial by (rule inFlightInv_run)
  have A: "distinct (map keyOf (suspended (run initialWorld evs)))"
    using inv by (simp add: inFlightInv_def)
  have B: "set (map keyOf (suspended (run initialWorld evs))) =
             loadingRef (state (run initialWorld evs))"
    using inv by (simp add: inFlightInv_def)
  have C1: "\<not> isWithinVienna b \<or> keyOf b \<in> loadingRef s \<longrightarrow> loadBuildings_begin b s = (s, None)"
    using begin_skip [of b s] by blast
  have C2: "isWithinVienna b \<and> keyOf b \<notin> loadingRef s \<and>
    Map_get (boundsToKey (addBoundsBuffer b 0.3)) (cache (buildingCache s)) = None \<longrightarrow>
      loadBuildings_begin b s =
        (s\<lparr>loading := True, error := None, loadingRef := insert (keyOf b) (loadingRef s)\<rparr>,
         Some (keyOf b))"
    using begin_miss [of b s] by blast
  have C3: "isWithinVienna b \<and> keyOf b \<notin> loadingRef s \<and>
    Map_get (boundsToKey (addBoundsBuffer b 0.3)) (cache (buildingCache s)) = Some entry \<longrightarrow>
      loadBuildings_begin b s =
        (s\<lparr>buildingCache := snd (BoundsCache_get (addBoundsBuffer b 0.3) (buildingCache s)),
           buildings := buildings s @ data entry\<rparr>, None)"
    using begin_hit [of b s entry] by blast
  have D: "loadingRef (loadBuildings_resume now b r s) = loadingRef s - {keyOf b}"
    by (rule resume_flags)
  have E: "keyOf b \<in> loadingRef (state w) \<longrightarrow> fire w (Call b) = w"
    using call_in_flight_is_noop [of b w] by blast
  have F: "isWithinVienna b \<and> keyOf b \<notin> loadingRef (state w) \<and>
    Map_get (boundsToKey (addBoundsBuffer b 0.3)) (cache (buildingCache (state w))) = None \<and>
    (\<forall>b' \<in> set bs. keyOf b' = keyOf b) \<longrightarrow>
      fetches (run w (Call b # map Call bs)) = fetches w @ [keyOf b] \<and>
      suspended (run w (Call b # map Call bs)) = suspended w @ [b] \<and>
      loadingRef (state (run w (Call b # map Call bs))) = insert (keyOf b) (loadingRef (state w))"
  proof (intro impI, elim conjE)
    assume h: "isWithinVienna b" "keyOf b \<notin> loadingRef (state w)"
      "Map_get (boundsToKey (addBoundsBuffer b 0.3)) (cache (buildingCache (state w))) = None"
      and same: "\<forall>b' \<in> set bs. keyOf b' = keyOf b"
    let ?s' = "(state w)\<lparr>loading := True, error := None,
                 loadingRef := insert (keyOf b) (loadingRef (state w))\<rparr>"
    have s': "loadBuildings_begin b (state w) = (?s', Some (keyOf b))"
      using h by (rule begin_miss)
    have w1: "fire w (Call b) = w\<lparr>state := ?s', suspended := suspended w @ [b],
                                  fetches := fetches w @ [keyOf b]\<rparr>"
      by (simp add: s')
    have "keyOf b \<in> loadingRef (state (fire w (Call b)))"
      unfolding w1 by simp
    from calls_in_flight_are_noops [OF this same]
    have r: "run w (Call b # map Call bs) = fire w (Call b)"
      by (simp only: run_Cons)
    show "fetches (run w (Call b # map Call bs)) = fetches w @ [keyOf b] \<and>
      suspended (run w (Call b # map Call bs)) = suspended w @ [b] \<and>
      loadingRef (state (run w (Call b # map Call bs))) = insert (keyOf b) (loadingRef (state w))"
      unfolding r w1 by simp
  qed
  from A B C1 C2 C3 D E F show ?thesis by (intro conjI)
qed

theorem one_fetch_in_flight_per_bbox_key_witness:
  "isWithinVienna regionA \<and> keyOf regionA \<notin> loadingRef (state initialWorld) \<and>
   Map_get (boundsToKey (addBoundsBuffer regionA 0.3))
     (cache (buildingCache (state initialWorld))) = None \<and>
   list_all (\<lambda>b'. keyOf b' = keyOf regionA) [regionA, regionA] \<and>
   fetches (run initialWorld (Call regionA # map Call [regionA, regionA])) = [keyOf regionA] \<and>
   suspended (run initialWorld (Call regionA # map Call [regionA, regionA])) = [regionA] \<and>
   loadingRef (state (run initialWorld (Call regionA # map Call [regionA, regionA]))) =
     {keyOf regionA} \<and>
   loadBuildings_begin regionA busyState = (busyState, None) \<and>
   loadingRef (loadBuildings_resume 7 regionA (StatusNotOk 504) busyState) = {}"
proof -
  have st: "state initialWorld = initialState" "fetches initialWorld = []"
    "suspended initialWorld = []" "loadingRef initialState = {}"
    "cache (buildingCache initialState) = []"
    by (simp_all add: initialWorld_def initialState_def newBoundsCache_def)
  have hyp: "isWithinVienna regionA" "keyOf regionA \<notin> loadingRef (state initialWorld)"
    "Map_get (boundsToKey (addBoundsBuffer regionA 0.3))
       (cache (buildingCache (state initialWorld))) = None"
    "\<forall>b' \<in> set [regionA, regionA]. keyOf b' = keyOf regionA"
    by (simp_all add: within_regionA st)
  have busy: "keyOf regionA \<in> loadingRef busyState" "loadingRef busyState = {keyOf regionA}"
    by (simp_all add: busyState_def)
  from one_fetch_in_flight_per_bbox_key
         [where evs = "[]" and b = regionA and s = busyState and now = 7
            and r = "StatusNotOk 504" and w = initialWorld and bs = "[regionA, regionA]"
            and entry = "\<lparr>data = [], timestamp = 0, bounds = regionA\<rparr>"]
  have "loadBuildings_begin regionA busyState = (busyState, None)"
    "loadingRef (loadBuildings_resume 7 regionA (StatusNotOk 504) busyState) =
       loadingRef busyState - {keyOf regionA}"
    "fetches (run initialWorld (Call regionA # map Call [regionA, regionA])) =
       fetches initialWorld @ [keyOf regionA]"
    "suspended (run initialWorld (Call regionA # map Call [regionA, regionA])) =
       suspended initialWorld @ [regionA]"
    "loadingRef (state (run initialWorld (Call regionA # map Call [regionA, regionA]))) =
       insert (keyOf regionA) (loadingRef (state initialWorld))"
    using hyp busy by blast+
  with hyp(1,2,3) show ?thesis by (simp add: st busy)
qed

subsection \<open>Failure of a fetch\<close>

lemma tryBody_failure:
  "isFailure r \<Longrightarrow> \<exists>err. tryBody now b r s = Inl err"
  by (auto simp: isFailure_def tryBody_def split: response.splits sum.splits)

lemma error_resume:
  "error (loadBuildings_resume now b (FetchRejected (ErrorObject m)) s) = Some m"
  "error (loadBuildings_resume now b (FetchRejected OtherValue) s) = Some ''Failed to load buildings''"
  "error (loadBuildings_resume now b (JsonRejected (ErrorObject m)) s) = Some m"
  "error (loadBuildings_resume now b (JsonRejected OtherValue) s) = Some ''Failed to load buildings''"
  "error (loadBuildings_resume now b (StatusNotOk status) s) =
     Some (''Overpass API failed: '' @ digitsOf status)"
  by (simp_all add: loadBuildings_resume_def tryBody_def catchError_def Let_def)

lemma begin_without_fetch:
  assumes "snd (loadBuildings_begin b s) = None"
  shows "loading (fst (loadBuildings_begin b s)) = loading s"
    "loadingRef (fst (loadBuildings_begin b s)) = loadingRef s"
    "error (fst (loadBuildings_begin b s)) = error s"
  using assms by (cases b s rule: begin_cases; simp)+

text \<open>
  C8. When the part of a call after its fetch ends by a throw (the fetch rejects, the
  status is not a success, the body does not parse, or the converter throws), the error
  state is set, and the accumulated buildings and the cache are as before. The message
  is that of the thrown error, \<open>Overpass API failed:\<close> and the status for a failed
  status, and \<open>Failed to load buildings\<close> for a thrown value that is no error object.
  After the return of a call, failed or not, the loading flag is false and the key of
  the call is out of the in-flight set. A call that returns without fetching (out of
  region, already in flight, or answered by the cache) leaves the loading flag, the
  error and the in-flight set as they were.
\<close>

theorem failed_fetch_sets_error_and_keeps_buildings:
  "(isFailure r \<longrightarrow>
      error (loadBuildings_resume now b r s) \<noteq> None \<and>
      buildings (loadBuildings_resume now b r s) = buildings s \<and>
      buildingCache (loadBuildings_resume now b r s) = buildingCache s) \<and>
   error (loadBuildings_resume now b (FetchRejected (ErrorObject m)) s) = Some m \<and>
   error (loadBuildings_resume now b (FetchRejected OtherValue) s) =
     Some ''Failed to load buildings'' \<and>
   error (loadBuildings_resume now b (JsonRejected (ErrorObject m)) s) = Some m \<and>
   error (loadBuildings_resume now b (JsonRejected OtherValue) s) =
     Some ''Failed to load buildings'' \<and>
   error (loadBuildings_resume now b (StatusNotOk status) s) =
     Some (''Overpass API failed: '' @ digitsOf status) \<and>
   loading (loadBuildings_resume now b r s) = False \<and>
   keyOf b \<notin> loadingRef (loadBuildings_resume now b r s) \<and>
   loadingRef (loadBuildings_resume now b r s) = loadingRef s - {keyOf b} \<and>
   (snd (loadBuildings_begin b s) = None \<longrightarrow>
      loading (fst (loadBuildings_begin b s)) = loading s \<and>
      loadingRef (fst (loadBuildings_begin b s)) = loadingRef s \<and>
      error (fst (loadBuildings_begin b s)) = error s)"
proof -
  have fail: "error (loadBuildings_resume now b r s) \<noteq> None \<and>
      buildings (loadBuildings_resume now b r s) = buildings s \<and>
      buildingCache (loadBuildings_resume now b r s) = buildingCache s"
    if "isFailure r"
  proof -
    from tryBody_failure [OF that] obtain err where "tryBody now b r s = Inl err" ..
    from resume_failure [OF this] show ?thesis by simp
  qed
  have out: "keyOf b \<notin> loadingRef (loadBuildings_resume now b r s)"
    by (simp add: resume_flags)
  from fail out show ?thesis
    using begin_without_fetch [of b s]
    by (simp add: error_resume resume_flags)
qed

theorem failed_fetch_sets_error_and_keeps_buildings_witness:
  "isFailure (StatusNotOk 504) \<and>
   error (loadBuildings_resume 7 regionA (StatusNotOk 504) busyState) =
     Some ''Overpass API failed: 504'' \<and>
   buildings (loadBuildings_resume 7 regionA (StatusNotOk 504) busyState) = [grabenFeature] \<and>
   loading (loadBuildings_resume 7 regionA (StatusNotOk 504) busyState) = False \<and>
   loadingRef (loadBuildings_resume 7 regionA (StatusNotOk 504) busyState) = {} \<and>
   snd (loadBuildings_begin regionA busyState) = None \<and>
   loading (fst (loadBuildings_begin regionA busyState)) = True"
proof -
  have skip: "loadBuildings_begin regionA busyState = (busyState, None)"
    by (rule begin_skip) (simp add: busyState_def)
  have digits: "digitsOf 504 = ''504''"
    by (simp add: digitsOf_numeral)
  show ?thesis
    using failed_fetch_sets_error_and_keeps_buildings
            [where r = "StatusNotOk 504" and now = 7 and b = regionA and s = busyState
               and status = 504]
          skip digits
    by (simp add: isFailure_def busyState_def)
qed


end
